theory Spec2Isabelle
  imports Main "HOL-Library.Word"
begin

unbundle bit_operations_syntax

section \<open>Flat byte memory\<close>

text \<open>
  \<open>Zip::Leanify\<close> works on raw pointers into one buffer, \<open>[fp_, fp_ + size_)\<close>, and
  writes its result at \<open>fp_ - size_leanified\<close>. Pointers are modelled as addresses
  (\<open>nat\<close>) into a flat memory. The memory is a byte list: a read past its end gives 0
  and a write past its end extends it, so that every access of the code has a value
  and no pointer arithmetic has to be assumed in range.
\<close>

type_synonym byte = "8 word"
type_synonym mem = "byte list"

definition rd8 :: "mem \<Rightarrow> nat \<Rightarrow> byte" where
  "rd8 m a = (if a < length m then m ! a else 0)"

definition rdn :: "mem \<Rightarrow> nat \<Rightarrow> nat \<Rightarrow> byte list" where
  "rdn m a n = map (rd8 m) [a..<a + n]"

definition wrn :: "mem \<Rightarrow> nat \<Rightarrow> byte list \<Rightarrow> mem" where
  "wrn m a bs = take a (m @ replicate (a - length m) 0) @ bs @ drop (a + length bs) m"

text \<open>\<open>memmove(dst, src, n)\<close>: the source is read whole before anything is written.
  \<open>memcpy\<close> is modelled the same way.\<close>

definition memmove :: "mem \<Rightarrow> nat \<Rightarrow> nat \<Rightarrow> nat \<Rightarrow> mem" where
  "memmove m dst src n = wrn m dst (rdn m src n)"

text \<open>Little-endian fields, as the packed structs are read on the platforms the
  program is built for.\<close>

definition le16 :: "16 word \<Rightarrow> byte list" where
  "le16 w = [ucast w, ucast (drop_bit 8 w)]"

definition le32 :: "32 word \<Rightarrow> byte list" where
  "le32 w = [ucast w, ucast (drop_bit 8 w), ucast (drop_bit 16 w), ucast (drop_bit 24 w)]"

definition rd16 :: "mem \<Rightarrow> nat \<Rightarrow> 16 word" where
  "rd16 m a = ucast (rd8 m a) OR push_bit 8 (ucast (rd8 m (a + 1)))"

definition rd32 :: "mem \<Rightarrow> nat \<Rightarrow> 32 word" where
  "rd32 m a = ucast (rd8 m a) OR push_bit 8 (ucast (rd8 m (a + 1)))
     OR push_bit 16 (ucast (rd8 m (a + 2))) OR push_bit 24 (ucast (rd8 m (a + 3)))"

definition wr16 :: "mem \<Rightarrow> nat \<Rightarrow> 16 word \<Rightarrow> mem" where
  "wr16 m a w = wrn m a (le16 w)"

definition wr32 :: "mem \<Rightarrow> nat \<Rightarrow> 32 word \<Rightarrow> mem" where
  "wr32 m a w = wrn m a (le32 w)"

text \<open>\<open>std::search\<close> returns the first match of the pattern in \<open>[first, lst)\<close>,
  \<open>std::find_end\<close> the last one; both return \<open>lst\<close> when there is none.\<close>

definition search :: "mem \<Rightarrow> nat \<Rightarrow> nat \<Rightarrow> byte list \<Rightarrow> nat" where
  "search m first lst pat =
     (case find (\<lambda>p. rdn m p (length pat) = pat) [first..<lst + 1 - length pat] of
        None \<Rightarrow> lst | Some p \<Rightarrow> p)"

definition find_end :: "mem \<Rightarrow> nat \<Rightarrow> nat \<Rightarrow> byte list \<Rightarrow> nat" where
  "find_end m first lst pat =
     (case find (\<lambda>p. rdn m p (length pat) = pat) (rev [first..<lst + 1 - length pat]) of
        None \<Rightarrow> lst | Some p \<Rightarrow> p)"

section \<open>The records of the ZIP format\<close>

definition header_magic :: "byte list" where
  "header_magic = [0x50, 0x4B, 0x03, 0x04]"

definition cd_magic :: "byte list" where
  "cd_magic = [0x50, 0x4B, 0x01, 0x02]"

definition eocd_magic :: "byte list" where
  "eocd_magic = [0x50, 0x4B, 0x05, 0x06]"

text \<open>\<open>struct CDHeader\<close> (46 bytes, packed) and \<open>struct EOCD\<close> (22 bytes, packed).
  Their \<open>magic\<close> member is not a field of the records: wherever the code fills a struct
  from the buffer it has just compared those four bytes with the constant.\<close>

record CDHeader =
  version_made_by :: "16 word"
  version_needed :: "16 word"
  flag :: "16 word"
  compression_method :: "16 word"
  last_mod_time :: "16 word"
  last_mod_date :: "16 word"
  crc32 :: "32 word"
  compressed_size :: "32 word"
  uncompressed_size :: "32 word"
  filename_len :: "16 word"
  extra_field_len :: "16 word"
  comment_len :: "16 word"
  disk_file_start :: "16 word"
  internal_file_attributes :: "16 word"
  external_file_attributes :: "32 word"
  local_header_offset :: "32 word"

record EOCD =
  disk_num :: "16 word"
  disk_cd_start :: "16 word"
  num_records :: "16 word"
  num_records_total :: "16 word"
  cd_size :: "32 word"
  cd_offset :: "32 word"
  eocd_comment_len :: "16 word"

definition dec_CDHeader :: "mem \<Rightarrow> nat \<Rightarrow> CDHeader" where
  "dec_CDHeader m p =
     \<lparr> version_made_by = rd16 m (p + 4), version_needed = rd16 m (p + 6),
       flag = rd16 m (p + 8), compression_method = rd16 m (p + 10),
       last_mod_time = rd16 m (p + 12), last_mod_date = rd16 m (p + 14),
       crc32 = rd32 m (p + 16), compressed_size = rd32 m (p + 20),
       uncompressed_size = rd32 m (p + 24), filename_len = rd16 m (p + 28),
       extra_field_len = rd16 m (p + 30), comment_len = rd16 m (p + 32),
       disk_file_start = rd16 m (p + 34), internal_file_attributes = rd16 m (p + 36),
       external_file_attributes = rd32 m (p + 38), local_header_offset = rd32 m (p + 42) \<rparr>"

definition enc_CDHeader :: "CDHeader \<Rightarrow> byte list" where
  "enc_CDHeader h =
     cd_magic @ le16 (version_made_by h) @ le16 (version_needed h) @ le16 (flag h)
       @ le16 (compression_method h) @ le16 (last_mod_time h) @ le16 (last_mod_date h)
       @ le32 (crc32 h) @ le32 (compressed_size h) @ le32 (uncompressed_size h)
       @ le16 (filename_len h) @ le16 (extra_field_len h) @ le16 (comment_len h)
       @ le16 (disk_file_start h) @ le16 (internal_file_attributes h)
       @ le32 (external_file_attributes h) @ le32 (local_header_offset h)"

definition dec_EOCD :: "mem \<Rightarrow> nat \<Rightarrow> EOCD" where
  "dec_EOCD m p =
     \<lparr> disk_num = rd16 m (p + 4), disk_cd_start = rd16 m (p + 6),
       num_records = rd16 m (p + 8), num_records_total = rd16 m (p + 10),
       cd_size = rd32 m (p + 12), cd_offset = rd32 m (p + 16),
       eocd_comment_len = rd16 m (p + 20) \<rparr>"

definition enc_EOCD :: "EOCD \<Rightarrow> byte list" where
  "enc_EOCD e =
     eocd_magic @ le16 (disk_num e) @ le16 (disk_cd_start e) @ le16 (num_records e)
       @ le16 (num_records_total e) @ le32 (cd_size e) @ le32 (cd_offset e)
       @ le16 (eocd_comment_len e)"

section \<open>What the function is given\<close>

text \<open>
  The collaborators of \<open>Zip::Leanify\<close> that are not part of the ZIP handler, and the
  settings it reads, are parameters of the model:
  \<^item> \<open>LeanifyFile\<close>, the recursive minifier: from the bytes of a file and its name to the
    bytes it leaves (its return value is their length). Called in place as
    \<open>LeanifyFile(p, n, k, name)\<close> it leaves them at \<open>p - k\<close>;
  \<^item> \<open>mz_crc32\<close>, \<open>tinfl_decompress_mem_to_heap\<close> (\<open>None\<close> is the null pointer) and
    \<open>ZopfliDeflate\<close>;
  \<^item> \<open>is_fast\<close>, \<open>depth\<close> (its value when the function is entered) and \<open>max_depth\<close>;
  \<^item> \<open>std_sort\<close>, the \<open>std::sort\<close> of line 124 with the comparison of line 125.
\<close>

record env =
  LeanifyFile :: "byte list \<Rightarrow> byte list \<Rightarrow> byte list"
  mz_crc32 :: "byte list \<Rightarrow> 32 word"
  tinfl_decompress_mem_to_heap :: "byte list \<Rightarrow> byte list option"
  ZopfliDeflate :: "byte list \<Rightarrow> byte list"
  is_fast :: bool
  depth :: int
  max_depth :: int
  std_sort :: "CDHeader list \<Rightarrow> CDHeader list"

text \<open>What the function prints: the diagnostics on \<open>cerr\<close> and the file names of
  \<open>PrintFileName\<close>, in the order they are printed.\<close>

datatype diag =
    EOCD_not_found
  | EOF_with_EOCD
  | Split_or_spanned
  | Central_directory_too_large
  | CD_header_passed_end nat
  | CD_header_magic_mismatch nat
  | CD_size_mismatch
  | Invalid_local_header_offset "32 word"
  | Filename_length_mismatch
  | Reached_EOF_in_local_header
  | Compressed_size_too_large
  | Decompression_failed
  | PrintFileName "byte list"

section \<open>Reading the central directory (lines 93-122)\<close>

text \<open>The loop \<open>for (int i = 0; i < eocd.num_records; i++)\<close>: \<open>k\<close> counts the iterations
  left. The state is \<open>(cd_headers, p_read, cd_end, base_offset, cerr)\<close>.\<close>

type_synonym cdstate = "CDHeader list \<times> nat \<times> nat \<times> nat \<times> diag list"

fun read_cd_headers :: "mem \<Rightarrow> nat \<Rightarrow> nat \<Rightarrow> nat \<Rightarrow> nat \<Rightarrow> nat \<Rightarrow> cdstate \<Rightarrow> cdstate" where
  "read_cd_headers m fp p_end zip_offset i 0 s = s"
| "read_cd_headers m fp p_end zip_offset i (Suc k) (cd_headers, p_read, cd_end, base_offset, cerr) =
     (if p_read + 46 > cd_end
      then (cd_headers, p_read, cd_end, base_offset, cerr @ [CD_header_passed_end i])
      else if rdn m p_read 4 \<noteq> cd_magic
              \<and> \<not> (i = 0 \<and> cd_end + zip_offset \<le> p_end \<and> rdn m (p_read + zip_offset) 4 = cd_magic)
      then (cd_headers, p_read, cd_end, base_offset, cerr @ [CD_header_magic_mismatch (p_read - fp)])
      else
        let shift = (if rdn m p_read 4 \<noteq> cd_magic then zip_offset else 0);
            base_offset = (if rdn m p_read 4 \<noteq> cd_magic then zip_offset else base_offset);
            p_read = p_read + shift;
            cd_end = cd_end + shift;
            cd_header = dec_CDHeader m p_read;
            p_read = p_read + 46 + unat (filename_len cd_header)
                       + unat (extra_field_len cd_header) + unat (comment_len cd_header)
        in read_cd_headers m fp p_end zip_offset (i + 1) k
             (cd_headers @ [cd_header], p_read, cd_end, base_offset, cerr))"

section \<open>Compaction of the local entries (lines 132-260)\<close>

text \<open>The state the loop changes: the memory, the write cursor and the output so far.\<close>

record lstate =
  buf :: mem
  p_write :: nat
  cerr :: "diag list"

definition say :: "diag \<Rightarrow> lstate \<Rightarrow> lstate" where
  "say d st = st\<lparr>cerr := cerr st @ [d]\<rparr>"

text \<open>What the loop does not change: \<open>fp_\<close>, \<open>p_end\<close>, \<open>base_offset\<close> and \<open>fp_w_base\<close>.\<close>

record zctx =
  fp :: nat
  p_end :: nat
  base_offset :: nat
  fp_w_base :: nat

text \<open>How one iteration ends: at the \<open>continue\<close> of line 137 (the entry is not
  touched), at a \<open>break\<close> (lines 150 and 187), or with the entry written (the end of the
  body, and the \<open>continue\<close>s of lines 217 and 229, which follow the entry's last write).\<close>

datatype verdict = Skipped | Stopped | Written

text \<open>Lines 196-208: the method is not deflate, or the entry is encrypted, or fast mode.
  \<open>hdr\<close> is the address of the moved header (the pointers \<open>crc\<close>, \<open>compressed_size\<close>,
  \<open>uncompressed_size\<close> and \<open>compression_method\<close> are \<open>hdr + 14\<close>, \<open>hdr + 18\<close>, \<open>hdr + 22\<close> and
  \<open>hdr + 8\<close>); \<open>p_read\<close> and \<open>p_write st\<close> are past the header.\<close>

definition store_or_move ::
  "env \<Rightarrow> lstate \<Rightarrow> CDHeader \<Rightarrow> nat \<Rightarrow> nat \<Rightarrow> 16 word \<Rightarrow> 32 word \<Rightarrow> byte list \<Rightarrow> lstate \<times> CDHeader" where
  "store_or_move E st cd_header hdr p_read flg orig_comp_size filename =
     (let (m, cd_header) =
        (if rd16 (buf st) (hdr + 8) = 0 \<and> depth E + 1 \<le> max_depth E \<and> \<not> (flg AND 1 \<noteq> 0)
         then
           (if orig_comp_size \<noteq> 0
            then
              let leanified = LeanifyFile E (rdn (buf st) p_read (unat orig_comp_size)) filename;
                  m = wrn (buf st) (p_write st) leanified;
                  new_size = (of_nat (length leanified) :: 32 word);
                  m = wr32 m (hdr + 22) new_size;
                  m = wr32 m (hdr + 18) new_size;
                  cd_header = cd_header\<lparr>uncompressed_size := new_size, compressed_size := new_size\<rparr>;
                  c = mz_crc32 E (rdn m (p_write st) (unat new_size));
                  m = wr32 m (hdr + 14) c
              in (m, cd_header\<lparr>crc32 := c\<rparr>)
            else (buf st, cd_header))
         else (memmove (buf st) (p_write st) p_read (unat orig_comp_size), cd_header))
      in (st\<lparr>buf := m, p_write := p_write st + unat (rd32 m (hdr + 18))\<rparr>, cd_header))"

text \<open>Lines 210-259: the method is deflate.\<close>

definition deflate_entry ::
  "env \<Rightarrow> lstate \<Rightarrow> CDHeader \<Rightarrow> nat \<Rightarrow> nat \<Rightarrow> 32 word \<Rightarrow> byte list \<Rightarrow> lstate \<times> CDHeader" where
  "deflate_entry E st cd_header hdr p_read orig_comp_size filename =
     (if rd32 (buf st) (hdr + 22) = 0
      then (st\<lparr>buf := wr32 (wr16 (buf st) (hdr + 8) 0) (hdr + 18) 0\<rparr>,
            cd_header\<lparr>compression_method := 0, compressed_size := 0\<rparr>)
      else
        let uncompressed_size = rd32 (buf st) (hdr + 22);
            skipping =
              (say Decompression_failed
                 (st\<lparr>buf := memmove (buf st) (p_write st) p_read (unat orig_comp_size),
                     p_write := p_write st + unat orig_comp_size\<rparr>),
               cd_header)
        in case tinfl_decompress_mem_to_heap E (rdn (buf st) p_read (unat orig_comp_size)) of
             None \<Rightarrow> skipping
           | Some buffer \<Rightarrow>
               if length buffer \<noteq> unat uncompressed_size
                  \<or> rd32 (buf st) (hdr + 14) \<noteq> mz_crc32 E (take (unat uncompressed_size) buffer)
               then skipping
               else
                 let new_uncomp_size = (of_nat (length (LeanifyFile E buffer filename)) :: 32 word);
                     leanified = take (unat new_uncomp_size) (LeanifyFile E buffer filename);
                     out = ZopfliDeflate E leanified;
                     new_comp_size = length out;
                     (m, cd_header) =
                       (if unat new_uncomp_size \<le> new_comp_size \<and> new_uncomp_size \<le> orig_comp_size
                        then
                          let m = wr16 (buf st) (hdr + 8) 0;
                              m = wr32 m (hdr + 14) (mz_crc32 E leanified);
                              m = wr32 m (hdr + 18) new_uncomp_size;
                              m = wr32 m (hdr + 22) new_uncomp_size
                          in (wrn m (p_write st) leanified,
                              cd_header\<lparr>compression_method := 0, crc32 := mz_crc32 E leanified,
                                compressed_size := new_uncomp_size,
                                uncompressed_size := new_uncomp_size\<rparr>)
                        else if new_comp_size < unat orig_comp_size
                        then
                          let m = wr32 (buf st) (hdr + 14) (mz_crc32 E leanified);
                              m = wr32 m (hdr + 18) (of_nat new_comp_size);
                              m = wr32 m (hdr + 22) new_uncomp_size
                          in (wrn m (p_write st) out,
                              cd_header\<lparr>crc32 := mz_crc32 E leanified,
                                compressed_size := of_nat new_comp_size,
                                uncompressed_size := new_uncomp_size\<rparr>)
                        else (memmove (buf st) (p_write st) p_read (unat orig_comp_size), cd_header))
                 in (st\<lparr>buf := m, p_write := p_write st + unat (rd32 m (hdr + 18))\<rparr>, cd_header))"

text \<open>Lines 152-183 of the loop body: the header is moved to the write cursor, its
  extra field is skipped and its length zeroed, the file name is printed, and a header
  with the data descriptor bit gets the sizes and CRC of the directory. The result is
  the state, \<open>p_read\<close>, \<open>flag\<close> (as it was before the bit was cleared),
  \<open>orig_comp_size\<close> and \<open>filename\<close>.\<close>

definition move_header ::
  "env \<Rightarrow> lstate \<Rightarrow> CDHeader \<Rightarrow> nat \<Rightarrow> 16 word \<Rightarrow> lstate \<times> nat \<times> 16 word \<times> 32 word \<times> byte list" where
  "move_header E st cd_header p_read filename_length =
     (let header_size = 30 + unat filename_length;
          hdr = p_write st;
          m = memmove (buf st) hdr p_read header_size;
          extra = rd16 m (hdr + 28);
          p_read = (if extra \<noteq> 0 then p_read + unat extra else p_read);
          m = (if extra \<noteq> 0 then wr16 m (hdr + 28) 0 else m);
          orig_comp_size = rd32 m (hdr + 18);
          flg = rd16 m (hdr + 6);
          filename = rdn m (hdr + 30) (unat filename_length);
          st = (if (orig_comp_size \<noteq> 0 \<or> rd16 m (hdr + 8) \<noteq> 0 \<or> flg AND 8 \<noteq> 0)
                   \<and> depth E + 1 \<le> max_depth E
                then say (PrintFileName filename) st else st);
          m = (if flg AND 8 \<noteq> 0
               then
                 let m = wr16 m (hdr + 6) (rd16 m (hdr + 6) AND NOT 8);
                     m = wr32 m (hdr + 14) (crc32 cd_header);
                     m = wr32 m (hdr + 18) (compressed_size cd_header)
                 in wr32 m (hdr + 22) (uncompressed_size cd_header)
               else m);
          orig_comp_size = (if flg AND 8 \<noteq> 0 then compressed_size cd_header else orig_comp_size)
      in (st\<lparr>buf := m\<rparr>, p_read, flg, orig_comp_size, filename))"

text \<open>The body of the loop over \<open>cd_headers\<close>, lines 133-259. \<open>cd_header\<close> is a reference
  into the vector: the entry as the body leaves it is returned.\<close>

definition local_entry :: "env \<Rightarrow> zctx \<Rightarrow> lstate \<Rightarrow> CDHeader \<Rightarrow> verdict \<times> lstate \<times> CDHeader" where
  "local_entry E c st cd_header =
     (let p_read = fp c + base_offset c + unat (local_header_offset cd_header)
      in if p_read + 30 > p_end c \<or> rdn (buf st) p_read 4 \<noteq> header_magic
         then (Skipped, say (Invalid_local_header_offset (local_header_offset cd_header)) st, cd_header)
         else
           let cd_header = cd_header\<lparr>local_header_offset := of_nat (p_write st - fp_w_base c)\<rparr>;
               filename_length = rd16 (buf st) (p_read + 26);
               st = (if filename_length \<noteq> filename_len cd_header
                     then say Filename_length_mismatch st else st);
               header_size = 30 + unat filename_length
           in if p_read + header_size > p_end c
              then (Stopped, say Reached_EOF_in_local_header st, cd_header)
              else
                let hdr = p_write st;
                    (st, p_read, flg, orig_comp_size, filename) =
                       move_header E st cd_header p_read filename_length
                in if p_read + unat orig_comp_size > p_end c
                   then (Stopped, say Compressed_size_too_large st, cd_header)
                   else
                     let p_read = p_read + header_size;
                         st = st\<lparr>p_write := hdr + header_size\<rparr>;
                         (st, cd_header) =
                           (if rd16 (buf st) (hdr + 8) \<noteq> 8 \<or> flg AND 1 \<noteq> 0 \<or> is_fast E
                            then store_or_move E st cd_header hdr p_read flg orig_comp_size filename
                            else deflate_entry E st cd_header hdr p_read orig_comp_size filename)
                     in (Written, st, cd_header))"

text \<open>The loop: a \<open>break\<close> leaves the entries after it as they were read.\<close>

fun compact :: "env \<Rightarrow> zctx \<Rightarrow> lstate \<Rightarrow> CDHeader list \<Rightarrow> lstate \<times> CDHeader list" where
  "compact E c st [] = (st, [])"
| "compact E c st (cd_header # rest) =
     (case local_entry E c st cd_header of
        (Stopped, st', cd_header') \<Rightarrow> (st', cd_header' # rest)
      | (_, st', cd_header') \<Rightarrow>
          (case compact E c st' rest of (st'', rest') \<Rightarrow> (st'', cd_header' # rest')))"

section \<open>Writing the central directory (lines 262-275)\<close>

text \<open>Line 273 copies the file name of each record from the address
  \<open>fp_w_base + local_header_offset + 30\<close>. For an entry that the loop above has
  written, line 139 has set the offset to where its header now is. For an entry that
  was skipped at line 137, or that comes after a \<open>break\<close>, the offset is still the one
  read from the input, which no check has found to be inside the buffer. The buffer
  is \<open>[lo, hi)\<close>, from \<open>fp_ - size_leanified\<close> to \<open>p_end\<close>. A copy of one or more
  bytes that does not lie inside it is undefined behaviour of the code, and the result
  is \<open>None\<close>.\<close>

fun write_cd_headers ::
  "nat \<Rightarrow> nat \<Rightarrow> nat \<Rightarrow> mem \<Rightarrow> nat \<Rightarrow> CDHeader list \<Rightarrow> (mem \<times> nat) option" where
  "write_cd_headers lo hi fwb m pw [] = Some (m, pw)"
| "write_cd_headers lo hi fwb m pw (cd_header # rest) =
     (let cd_header = cd_header\<lparr>flag := flag cd_header AND NOT 8,
                                 extra_field_len := 0, comment_len := 0\<rparr>;
          m = wrn m pw (enc_CDHeader cd_header);
          pw = pw + 46;
          src = fwb + unat (local_header_offset cd_header) + 30;
          n = unat (filename_len cd_header)
      in if n \<noteq> 0 \<and> (src < lo \<or> hi < src + n) then None
         else write_cd_headers lo hi fwb (memmove m pw src n) (pw + n) rest)"

section \<open>\<open>Zip::Leanify\<close>\<close>

text \<open>The object after the call (\<open>fp_\<close> and \<open>size_\<close>, which is also the value
  returned), the memory and what was printed.\<close>

record zip =
  z_buf :: mem
  z_fp :: nat
  z_size :: nat
  z_cerr :: "diag list"

text \<open>Modelled from the spec: \<open>Format::Leanify\<close>, the base-class method the function
  falls back on, is not in the source file. The spec calls it a full passthrough that
  returns the input unchanged: the bytes of the input are the output, which like every
  output of the function starts at \<open>fp_ - size_leanified\<close>, and the length returned is
  the input's.\<close>

definition Format_Leanify :: "mem \<Rightarrow> nat \<Rightarrow> nat \<Rightarrow> nat \<Rightarrow> diag list \<Rightarrow> zip" where
  "Format_Leanify m fp0 size0 size_leanified out =
     \<lparr> z_buf = memmove m (fp0 - size_leanified) fp0 size0,
       z_fp = fp0 - size_leanified, z_size = size0, z_cerr = out \<rparr>"

text \<open>Lines 85-125: the first local header is looked for, the directory is read and
  sorted. The result is \<open>zip_offset\<close>, \<open>base_offset\<close>, the sorted \<open>cd_headers\<close> and what
  was printed. \<open>std::sort\<close> is not stable: the order it leaves entries of equal offset
  in is the library's, so the sort is the \<open>std_sort\<close> of the environment.\<close>

definition read_central_directory ::
  "env \<Rightarrow> mem \<Rightarrow> nat \<Rightarrow> nat \<Rightarrow> EOCD \<Rightarrow> nat \<times> nat \<times> CDHeader list \<times> diag list" where
  "read_central_directory E m fp0 size0 eocd =
     (let cd_end = fp0 + unat (cd_offset eocd) + unat (cd_size eocd);
          first_local_header = search m fp0 (fp0 + unat (cd_offset eocd)) header_magic;
          zip_offset = first_local_header - fp0;
          (cd_headers, p_read, cd_end, base, out) =
             read_cd_headers m fp0 (fp0 + size0) zip_offset 0 (unat (num_records eocd))
               ([], fp0 + unat (cd_offset eocd), cd_end, 0, []);
          out = (if p_read \<noteq> cd_end then out @ [CD_size_mismatch] else out)
      in (zip_offset, base, std_sort E cd_headers, out))"

text \<open>Lines 127-286: the bytes before the first local header are kept, the entries are
  compacted, and the directory and the end record are written after them.\<close>

definition emit ::
  "env \<Rightarrow> mem \<Rightarrow> nat \<Rightarrow> nat \<Rightarrow> nat \<Rightarrow> EOCD \<Rightarrow> nat \<Rightarrow> nat \<Rightarrow> CDHeader list \<Rightarrow> diag list
     \<Rightarrow> zip option" where
  "emit E m fp0 size0 size_leanified eocd zip_offset base cd_headers out =
     (let fp_w = fp0 - size_leanified;
          c = \<lparr> fp = fp0, p_end = fp0 + size0, base_offset = base, fp_w_base = fp_w + base \<rparr>;
          m = memmove m fp_w fp0 zip_offset;
          (st, cd_headers) =
             compact E c \<lparr> buf = m, p_write = fp_w + zip_offset, cerr = out \<rparr> cd_headers;
          eocd = eocd\<lparr>cd_offset := of_nat (p_write st - fp_w_base c)\<rparr>
      in case write_cd_headers fp_w (p_end c) (fp_w_base c) (buf st) (p_write st) cd_headers of
           None \<Rightarrow> None
         | Some (m, pw) \<Rightarrow>
             let eocd = eocd\<lparr>num_records := of_nat (length cd_headers),
                              num_records_total := of_nat (length cd_headers),
                              cd_size := of_nat (pw - fp_w_base c - unat (cd_offset eocd)),
                              eocd_comment_len := 0\<rparr>;
                 m = wrn m pw (enc_EOCD eocd)
             in Some \<lparr> z_buf = m, z_fp = fp_w, z_size = pw + 22 - fp_w, z_cerr = cerr st \<rparr>)"

definition rewrite :: "env \<Rightarrow> mem \<Rightarrow> nat \<Rightarrow> nat \<Rightarrow> nat \<Rightarrow> EOCD \<Rightarrow> zip option" where
  "rewrite E m fp0 size0 size_leanified eocd =
     (case read_central_directory E m fp0 size0 eocd of
        (zip_offset, base, cd_headers, out) \<Rightarrow>
          emit E m fp0 size0 size_leanified eocd zip_offset base cd_headers out)"

text \<open>Line 62: the smallest possible location of the end record if there is a 64K
  comment. The subtraction stops at 0 where the pointer of the code would leave the
  address space, so the maximum is \<open>fp_\<close> there.\<close>

definition p_searchstart :: "nat \<Rightarrow> nat \<Rightarrow> nat" where
  "p_searchstart fp0 size0 = max fp0 (fp0 + size0 - 65535 - 4)"

text \<open>Lines 56-83. \<open>depth++\<close> is read off where \<open>depth\<close> is used: the body compares
  \<open>depth E + 1\<close> with \<open>max_depth\<close>. The result is \<open>None\<close> where the directory loop
  reads outside the buffer.\<close>

definition Leanify :: "env \<Rightarrow> mem \<Rightarrow> nat \<Rightarrow> nat \<Rightarrow> nat \<Rightarrow> zip option" where
  "Leanify E m fp0 size0 size_leanified =
     (let p_end0 = fp0 + size0;
          p_eocd = find_end m (p_searchstart fp0 size0) p_end0 eocd_magic
      in if p_eocd = p_end0
         then Some (Format_Leanify m fp0 size0 size_leanified [EOCD_not_found])
         else if p_eocd + 22 > p_end0
         then Some (Format_Leanify m fp0 size0 size_leanified [EOF_with_EOCD])
         else
           let eocd = dec_EOCD m p_eocd
           in if disk_num eocd \<noteq> 0 \<or> disk_cd_start eocd \<noteq> 0
                 \<or> num_records eocd \<noteq> num_records_total eocd
              then Some (Format_Leanify m fp0 size0 size_leanified [Split_or_spanned])
              else if fp0 + unat (cd_offset eocd) + unat (cd_size eocd) > p_eocd
              then Some (Format_Leanify m fp0 size0 size_leanified [Central_directory_too_large])
              else rewrite E m fp0 size0 size_leanified eocd)"

section \<open>Collaborators and inputs to evaluate the model on\<close>

text \<open>Small stand-ins for the collaborators: a checksum, a run-length code for
  deflate (a stream is a list of pairs count, byte), and a minifier that drops the
  blanks of a file.\<close>

definition toy_crc :: "byte list \<Rightarrow> 32 word" where
  "toy_crc bs = foldl (\<lambda>acc b. acc * 31 + ucast b) 0 bs"

fun toy_inflate :: "byte list \<Rightarrow> byte list option" where
  "toy_inflate [] = Some []"
| "toy_inflate [x] = None"
| "toy_inflate (n # b # r) = map_option (\<lambda>t. replicate (unat n) b @ t) (toy_inflate r)"

fun toy_rle :: "byte \<Rightarrow> nat \<Rightarrow> byte list \<Rightarrow> byte list" where
  "toy_rle b n [] = [of_nat n, b]"
| "toy_rle b n (x # xs) =
     (if x = b \<and> n < 255 then toy_rle b (n + 1) xs else [of_nat n, b] @ toy_rle x 1 xs)"

definition toy_deflate :: "byte list \<Rightarrow> byte list" where
  "toy_deflate bs = (case bs of [] \<Rightarrow> [] | x # xs \<Rightarrow> toy_rle x 1 xs)"

definition toy_min :: "byte list \<Rightarrow> byte list \<Rightarrow> byte list" where
  "toy_min bs name = filter (\<lambda>b. b \<noteq> 0x20) bs"

definition toyE :: env where
  "toyE = \<lparr> LeanifyFile = toy_min, mz_crc32 = toy_crc, tinfl_decompress_mem_to_heap = toy_inflate,
     ZopfliDeflate = toy_deflate, is_fast = False, depth = 0, max_depth = 100,
     std_sort = sort_key local_header_offset \<rparr>"

text \<open>An input whose end record is cut off by the end of the buffer, which is
  \<open>[10, 30)\<close>: the record starts at 18 and only 12 of its 22 bytes are there.\<close>

definition cut_short :: mem where
  "cut_short = [9, 9, 9, 9, 9, 9, 9, 9, 9, 9,
     1, 2, 3, 4, 5, 6, 7, 8, 0x50, 0x4B, 0x05, 0x06, 0, 0, 0, 0, 0, 0, 0, 0]"

section \<open>Notions the properties are stated with\<close>

text \<open>The end record the function finds (line 63), and the four checks of lines 64-83
  that let it go on to rewrite the archive.\<close>

definition found_eocd_at :: "mem \<Rightarrow> nat \<Rightarrow> nat \<Rightarrow> nat" where
  "found_eocd_at m fp0 size0 = find_end m (p_searchstart fp0 size0) (fp0 + size0) eocd_magic"

definition found_eocd :: "mem \<Rightarrow> nat \<Rightarrow> nat \<Rightarrow> EOCD" where
  "found_eocd m fp0 size0 = dec_EOCD m (found_eocd_at m fp0 size0)"

definition accepted :: "mem \<Rightarrow> nat \<Rightarrow> nat \<Rightarrow> bool" where
  "accepted m fp0 size0 =
     (found_eocd_at m fp0 size0 \<noteq> fp0 + size0
      \<and> found_eocd_at m fp0 size0 + 22 \<le> fp0 + size0
      \<and> disk_num (found_eocd m fp0 size0) = 0 \<and> disk_cd_start (found_eocd m fp0 size0) = 0
      \<and> num_records (found_eocd m fp0 size0) = num_records_total (found_eocd m fp0 size0)
      \<and> fp0 + unat (cd_offset (found_eocd m fp0 size0)) + unat (cd_size (found_eocd m fp0 size0))
            \<le> found_eocd_at m fp0 size0)"

text \<open>The base offset the reading of the directory settles on, and the entries it
  reads, sorted.\<close>

definition resolved_base :: "env \<Rightarrow> mem \<Rightarrow> nat \<Rightarrow> nat \<Rightarrow> nat" where
  "resolved_base E m fp0 size0 =
     (case read_central_directory E m fp0 size0 (found_eocd m fp0 size0) of
        (zip_offset, base, cd_headers, out) \<Rightarrow> base)"

definition parsed_entries :: "env \<Rightarrow> mem \<Rightarrow> nat \<Rightarrow> nat \<Rightarrow> CDHeader list" where
  "parsed_entries E m fp0 size0 =
     (case read_central_directory E m fp0 size0 (found_eocd m fp0 size0) of
        (zip_offset, base, cd_headers, out) \<Rightarrow> cd_headers)"

text \<open>The bytes a directory entry takes in the directory that is written, and the
  entry as it is written there (lines 266-267).\<close>

definition record_size :: "CDHeader \<Rightarrow> nat" where
  "record_size cd_header = 46 + unat (filename_len cd_header)"

definition cleared :: "CDHeader \<Rightarrow> CDHeader" where
  "cleared cd_header = cd_header\<lparr>flag := flag cd_header AND NOT 8, extra_field_len := 0, comment_len := 0\<rparr>"

text \<open>Where line 273 reads the name of a record from, and the test of the model that
  the read is outside the buffer \<open>[lo, hi)\<close>.\<close>

definition name_at :: "nat \<Rightarrow> CDHeader \<Rightarrow> nat" where
  "name_at fwb cd_header = fwb + unat (local_header_offset cd_header) + 30"

definition name_outside :: "nat \<Rightarrow> nat \<Rightarrow> nat \<Rightarrow> CDHeader \<Rightarrow> bool" where
  "name_outside lo hi fwb cd_header =
     (unat (filename_len cd_header) \<noteq> 0
      \<and> (name_at fwb cd_header < lo \<or> hi < name_at fwb cd_header + unat (filename_len cd_header)))"

text \<open>What the function needs of \<open>std::sort\<close>: the entries it returns are the entries it
  was given, each as many times, in the order of their offsets.\<close>

definition sort_contract :: "env \<Rightarrow> bool" where
  "sort_contract E =
     (\<forall>xs. (\<forall>x. count_list (std_sort E xs) x = count_list xs x)
           \<and> sorted (map local_header_offset (std_sort E xs)))"

text \<open>Two memories that agree outside of \<open>[lo, hi)\<close>.\<close>

definition same_outside :: "mem \<Rightarrow> mem \<Rightarrow> nat \<Rightarrow> nat \<Rightarrow> bool" where
  "same_outside m m' lo hi = (\<forall>a. a < lo \<or> hi \<le> a \<longrightarrow> rd8 m' a = rd8 m a)"

text \<open>The local header the loop body reads for a directory entry (line 133), and what
  it takes from it: the position of the payload (after lines 157 and 190) and the
  sizes and CRC the body works with, which are the header's own unless its data
  descriptor bit is set (lines 175-183).\<close>

definition lfh :: "zctx \<Rightarrow> CDHeader \<Rightarrow> nat" where
  "lfh c cd_header = fp c + base_offset c + unat (local_header_offset cd_header)"

definition payload_at :: "mem \<Rightarrow> nat \<Rightarrow> nat" where
  "payload_at m p = p + unat (rd16 m (p + 28)) + (30 + unat (rd16 m (p + 26)))"

definition declared_size :: "mem \<Rightarrow> nat \<Rightarrow> CDHeader \<Rightarrow> 32 word" where
  "declared_size m p cd_header =
     (if rd16 m (p + 6) AND 8 \<noteq> 0 then compressed_size cd_header else rd32 m (p + 18))"

definition declared_usize :: "mem \<Rightarrow> nat \<Rightarrow> CDHeader \<Rightarrow> 32 word" where
  "declared_usize m p cd_header =
     (if rd16 m (p + 6) AND 8 \<noteq> 0 then uncompressed_size cd_header else rd32 m (p + 22))"

definition declared_crc :: "mem \<Rightarrow> nat \<Rightarrow> CDHeader \<Rightarrow> 32 word" where
  "declared_crc m p cd_header =
     (if rd16 m (p + 6) AND 8 \<noteq> 0 then crc32 cd_header else rd32 m (p + 14))"

text \<open>The checks of lines 135, 148 and 185 pass: the body gets to its dispatch.\<close>

definition entry_ok :: "zctx \<Rightarrow> mem \<Rightarrow> CDHeader \<Rightarrow> bool" where
  "entry_ok c m cd_header =
     (fp c + base_offset c + unat (local_header_offset cd_header) + 30 \<le> p_end c
      \<and> rdn m (lfh c cd_header) 4 = header_magic
      \<and> lfh c cd_header + (30 + unat (rd16 m (lfh c cd_header + 26))) \<le> p_end c
      \<and> lfh c cd_header + unat (rd16 m (lfh c cd_header + 28))
           + unat (declared_size m (lfh c cd_header) cd_header) \<le> p_end c)"

text \<open>The state after the warning of line 144, if it is printed.\<close>

definition warned :: "lstate \<Rightarrow> 16 word \<Rightarrow> CDHeader \<Rightarrow> lstate" where
  "warned st fnl cd_header = (if fnl \<noteq> filename_len cd_header then say Filename_length_mismatch st else st)"

text \<open>The three results of the loop body.\<close>

definition entry_verdict :: "env \<Rightarrow> zctx \<Rightarrow> lstate \<Rightarrow> CDHeader \<Rightarrow> verdict" where
  "entry_verdict E c st cd_header = fst (local_entry E c st cd_header)"

definition entry_state :: "env \<Rightarrow> zctx \<Rightarrow> lstate \<Rightarrow> CDHeader \<Rightarrow> lstate" where
  "entry_state E c st cd_header = fst (snd (local_entry E c st cd_header))"

definition entry_cd :: "env \<Rightarrow> zctx \<Rightarrow> lstate \<Rightarrow> CDHeader \<Rightarrow> CDHeader" where
  "entry_cd E c st cd_header = snd (snd (local_entry E c st cd_header))"

text \<open>The test of line 224 passes: the payload inflates to the declared length with
  the declared CRC.\<close>

definition inflated_ok :: "env \<Rightarrow> byte list \<Rightarrow> 32 word \<Rightarrow> 32 word \<Rightarrow> bool" where
  "inflated_ok E payload usize crc =
     (case tinfl_decompress_mem_to_heap E payload of
        None \<Rightarrow> False
      | Some buffer \<Rightarrow> length buffer = unat usize \<and> crc = mz_crc32 E buffer)"

text \<open>The dispatch of lines 196-259, and the directory entry with the new offset of
  line 139.\<close>

definition dispatch ::
  "env \<Rightarrow> lstate \<Rightarrow> CDHeader \<Rightarrow> nat \<Rightarrow> nat \<Rightarrow> 16 word \<Rightarrow> 32 word \<Rightarrow> byte list \<Rightarrow> lstate \<times> CDHeader" where
  "dispatch E st cd_header hdr p_read flg orig_comp_size filename =
     (if rd16 (buf st) (hdr + 8) \<noteq> 8 \<or> flg AND 1 \<noteq> 0 \<or> is_fast E
      then store_or_move E st cd_header hdr p_read flg orig_comp_size filename
      else deflate_entry E st cd_header hdr p_read orig_comp_size filename)"

definition renumbered :: "zctx \<Rightarrow> lstate \<Rightarrow> CDHeader \<Rightarrow> CDHeader" where
  "renumbered c st cd_header =
     cd_header\<lparr>local_header_offset := of_nat (p_write st - fp_w_base c)\<rparr>"

text \<open>The contract of the recursive minifier: what it leaves is no longer than what it
  was given.\<close>

definition minifier_contract :: "env \<Rightarrow> bool" where
  "minifier_contract E = (\<forall>file name. length (LeanifyFile E file name) \<le> length file)"

text \<open>The fields of a directory entry that the dispatch never sets, and the agreement
  of a local header with a directory entry on CRC and sizes.\<close>

definition other_fields :: "CDHeader \<Rightarrow> CDHeader" where
  "other_fields cd_header =
     cd_header\<lparr>compression_method := 0, crc32 := 0, compressed_size := 0, uncompressed_size := 0\<rparr>"


subsection \<open>Entries to evaluate the loop body on\<close>

text \<open>A deflated entry \<open>b\<close> behind two bytes of other data: its payload inflates to
  \<open>AAAA\<close> and a blank.\<close>

definition one_deflated :: mem where
  "one_deflated = [238, 238, 80, 75, 3, 4, 20, 0, 0, 0, 8, 0, 0, 0, 0, 0, 224, 127, 178, 3,
     6, 0, 0, 0, 5, 0, 0, 0, 1, 0, 0, 0, 98, 2, 65, 2, 65, 1, 32]"

definition one_ctx :: zctx where
  "one_ctx = \<lparr> fp = 0, p_end = 39, base_offset = 0, fp_w_base = 0 \<rparr>"

definition one_st :: lstate where
  "one_st = \<lparr> buf = one_deflated, p_write = 0, cerr = [] \<rparr>"

definition one_cd :: CDHeader where
  "one_cd = \<lparr> version_made_by = 20, version_needed = 20, flag = 0, compression_method = 8,
     last_mod_time = 0, last_mod_date = 0, crc32 = 62029792, compressed_size = 6,
     uncompressed_size = 5, filename_len = 1, extra_field_len = 0, comment_len = 0,
     disk_file_start = 0, internal_file_attributes = 0, external_file_attributes = 0,
     local_header_offset = 2 \<rparr>"

text \<open>The same entry with a decompressor that fails on every payload.\<close>

definition never_inflates :: env where
  "never_inflates = toyE\<lparr>tinfl_decompress_mem_to_heap := (\<lambda>payload. None)\<rparr>"

text \<open>Fast mode, and a stored entry \<open>a\<close> whose three bytes hold one blank.\<close>

definition fast_env :: env where
  "fast_env = toyE\<lparr>is_fast := True\<rparr>"

definition one_stored :: mem where
  "one_stored = [238, 238, 80, 75, 3, 4, 20, 0, 0, 0, 0, 0, 0, 0, 0, 0, 34, 248, 0, 0,
     3, 0, 0, 0, 3, 0, 0, 0, 1, 0, 0, 0, 97, 65, 32, 65]"

definition stored_ctx :: zctx where
  "stored_ctx = \<lparr> fp = 0, p_end = 36, base_offset = 0, fp_w_base = 0 \<rparr>"

definition stored_st :: lstate where
  "stored_st = \<lparr> buf = one_stored, p_write = 0, cerr = [] \<rparr>"

definition stored_cd :: CDHeader where
  "stored_cd = \<lparr> version_made_by = 20, version_needed = 20, flag = 0, compression_method = 0,
     last_mod_time = 0, last_mod_date = 0, crc32 = 63522, compressed_size = 3,
     uncompressed_size = 3, filename_len = 1, extra_field_len = 0, comment_len = 0,
     disk_file_start = 0, internal_file_attributes = 0, external_file_attributes = 0,
     local_header_offset = 2 \<rparr>"

text \<open>The state after the loop, the end record that is written and where.\<close>

definition compacted :: "env \<Rightarrow> mem \<Rightarrow> nat \<Rightarrow> nat \<Rightarrow> nat \<Rightarrow> nat \<Rightarrow> nat \<Rightarrow> CDHeader list \<Rightarrow> diag list
    \<Rightarrow> lstate \<times> CDHeader list" where
  "compacted E m fp0 size0 size_leanified zip_offset base cd_headers out =
     compact E \<lparr> fp = fp0, p_end = fp0 + size0, base_offset = base,
                  fp_w_base = fp0 - size_leanified + base \<rparr>
       \<lparr> buf = memmove m (fp0 - size_leanified) fp0 zip_offset,
         p_write = fp0 - size_leanified + zip_offset, cerr = out \<rparr> cd_headers"

subsection \<open>Whole runs\<close>

text \<open>The verdicts of the loop of lines 132-260, entry by entry: the loop ends at the
  first entry that stops it, and the entries after it get none.\<close>

fun verdicts :: "env \<Rightarrow> zctx \<Rightarrow> lstate \<Rightarrow> CDHeader list \<Rightarrow> verdict list" where
  "verdicts E c st [] = []"
| "verdicts E c st (cd_header # rest) =
     (case local_entry E c st cd_header of
        (Stopped, st', cd') \<Rightarrow> [Stopped]
      | (v, st', cd') \<Rightarrow> v # verdicts E c st' rest)"

definition run_verdicts :: "env \<Rightarrow> mem \<Rightarrow> nat \<Rightarrow> nat \<Rightarrow> nat \<Rightarrow> verdict list" where
  "run_verdicts E m fp0 size0 size_leanified =
     (case read_central_directory E m fp0 size0 (found_eocd m fp0 size0) of
        (zip_offset, base, cd_headers, out) \<Rightarrow>
          verdicts E \<lparr> fp = fp0, p_end = fp0 + size0, base_offset = base,
                       fp_w_base = fp0 - size_leanified + base \<rparr>
            \<lparr> buf = memmove m (fp0 - size_leanified) fp0 zip_offset,
              p_write = fp0 - size_leanified + zip_offset, cerr = out \<rparr> cd_headers)"

text \<open>The directory entries as the loop leaves them, which the directory is written
  from.\<close>

definition final_entries :: "env \<Rightarrow> mem \<Rightarrow> nat \<Rightarrow> nat \<Rightarrow> nat \<Rightarrow> CDHeader list" where
  "final_entries E m fp0 size0 size_leanified =
     (case read_central_directory E m fp0 size0 (found_eocd m fp0 size0) of
        (zip_offset, base, cd_headers, out) \<Rightarrow>
          snd (compacted E m fp0 size0 size_leanified zip_offset base cd_headers out))"

text \<open>The end record of the output, which is read from its last 22 bytes, and where
  its fields say the directory starts.\<close>

definition eocd_out :: "zip \<Rightarrow> EOCD" where
  "eocd_out z = dec_EOCD (z_buf z) (z_fp z + z_size z - 22)"

definition cd_start_out :: "zip \<Rightarrow> nat \<Rightarrow> nat" where
  "cd_start_out z base = z_fp z + base + unat (cd_offset (eocd_out z))"

text \<open>An archive of one stored entry \<open>a\<close> with the content \<open>A A\<close>.\<close>

definition stored_zip :: mem where
  "stored_zip = [80, 75, 3, 4, 20, 0, 0, 0, 0, 0, 0, 0, 0, 0, 34, 248, 0, 0, 3, 0, 0, 0, 3, 0,
     0, 0, 1, 0, 0, 0, 97, 65, 32, 65,
     80, 75, 1, 2, 20, 0, 20, 0, 0, 0, 0, 0, 0, 0, 0, 0, 34, 248, 0, 0, 3, 0, 0, 0, 3, 0, 0, 0,
     1, 0, 0, 0, 0, 0, 0, 0, 0, 0, 0, 0, 0, 0, 0, 0, 0, 0, 97,
     80, 75, 5, 6, 0, 0, 0, 0, 1, 0, 1, 0, 47, 0, 0, 0, 34, 0, 0, 0, 0, 0]"

text \<open>Where the record \<open>i\<close> of a directory that starts at \<open>start\<close> lies.\<close>

definition record_at :: "nat \<Rightarrow> CDHeader list \<Rightarrow> nat \<Rightarrow> nat" where
  "record_at start cds i = start + sum_list (map record_size (take i cds))"

text \<open>What the function leaves of \<open>stored_zip\<close>: the content of the entry without its
  blank, and the directory and the end record one byte further down.\<close>

definition stored_zip_out :: zip where
  "stored_zip_out = \<lparr> z_buf = [80, 75, 3, 4, 20, 0, 0, 0, 0, 0, 0, 0, 0, 0, 32, 8, 0, 0, 2, 0,
     0, 0, 2, 0, 0, 0, 1, 0, 0, 0, 97, 65, 65,
     80, 75, 1, 2, 20, 0, 20, 0, 0, 0, 0, 0, 0, 0, 0, 0, 32, 8, 0, 0, 2, 0, 0, 0, 2, 0, 0, 0,
     1, 0, 0, 0, 0, 0, 0, 0, 0, 0, 0, 0, 0, 0, 0, 0, 0, 0, 97,
     80, 75, 5, 6, 0, 0, 0, 0, 1, 0, 1, 0, 47, 0, 0, 0, 33, 0, 0, 0, 0, 0, 0],
     z_fp = 0, z_size = 102, z_cerr = [PrintFileName [97]] \<rparr>"

text \<open>The same archive with a second directory entry \<open>b\<close>, whose local header offset
  1000 is behind the end of the buffer.\<close>

definition lost_cd :: CDHeader where
  "lost_cd = \<lparr> version_made_by = 20, version_needed = 20, flag = 0, compression_method = 0,
     last_mod_time = 0, last_mod_date = 0, crc32 = 0, compressed_size = 0,
     uncompressed_size = 0, filename_len = 1, extra_field_len = 0, comment_len = 0,
     disk_file_start = 0, internal_file_attributes = 0, external_file_attributes = 0,
     local_header_offset = 1000 \<rparr>"

definition lost_zip :: mem where
  "lost_zip = [80, 75, 3, 4, 20, 0, 0, 0, 0, 0, 0, 0, 0, 0, 34, 248, 0, 0, 3, 0, 0, 0, 3, 0,
     0, 0, 1, 0, 0, 0, 97, 65, 32, 65,
     80, 75, 1, 2, 20, 0, 20, 0, 0, 0, 0, 0, 0, 0, 0, 0, 34, 248, 0, 0, 3, 0, 0, 0, 3, 0, 0, 0,
     1, 0, 0, 0, 0, 0, 0, 0, 0, 0, 0, 0, 0, 0, 0, 0, 0, 0, 97,
     80, 75, 1, 2, 20, 0, 20, 0, 0, 0, 0, 0, 0, 0, 0, 0, 0, 0, 0, 0, 0, 0, 0, 0, 0, 0, 0, 0,
     1, 0, 0, 0, 0, 0, 0, 0, 0, 0, 0, 0, 0, 0, 232, 3, 0, 0, 98,
     80, 75, 5, 6, 0, 0, 0, 0, 2, 0, 2, 0, 94, 0, 0, 0, 34, 0, 0, 0, 0, 0]"

subsection \<open>More entries and notions for the loop body\<close>





text \<open>Two states of the loop with the same memory and the same write cursor: they
  differ in what was printed at most.\<close>

definition same_bytes :: "lstate \<Rightarrow> lstate \<Rightarrow> bool" where
  "same_bytes st st' = (buf st' = buf st \<and> p_write st' = p_write st)"

text \<open>The directory entry of \<open>one_deflated\<close> with a file name length of 2, where the
  local header says 1.\<close>

definition long_cd :: CDHeader where
  "long_cd = one_cd\<lparr>filename_len := 2\<rparr>"

subsection \<open>Valid archives\<close>

text \<open>The entries of a sorted directory lie one behind the other between \<open>lo\<close> and
  \<open>hi\<close>: each passes the checks of the loop body, its local header has the file name
  length of the directory entry, and the next one starts at or behind the end of its
  payload. So the local header offsets are distinct.\<close>

fun laid_out :: "zctx \<Rightarrow> mem \<Rightarrow> nat \<Rightarrow> CDHeader list \<Rightarrow> nat \<Rightarrow> bool" where
  "laid_out c m lo [] hi = (lo \<le> hi)"
| "laid_out c m lo (cd_header # rest) hi =
     (lo \<le> lfh c cd_header \<and> entry_ok c m cd_header
      \<and> rd16 m (lfh c cd_header + 26) = filename_len cd_header
      \<and> laid_out c m
           (payload_at m (lfh c cd_header) + unat (declared_size m (lfh c cd_header) cd_header))
           rest hi)"

text \<open>A valid archive: the four checks pass, the entries lie one behind the other
  between the first local header and the directory, the directory is no longer than
  the end record says and ends at or before the end record. The bytes that are given
  back in front of the buffer are in the address space.\<close>

definition valid_archive :: "env \<Rightarrow> mem \<Rightarrow> nat \<Rightarrow> nat \<Rightarrow> nat \<Rightarrow> bool" where
  "valid_archive E m fp0 size0 size_leanified =
     (accepted m fp0 size0 \<and> size_leanified \<le> fp0
      \<and> (case read_central_directory E m fp0 size0 (found_eocd m fp0 size0) of
            (zip_offset, base, cd_headers, out) \<Rightarrow>
              laid_out \<lparr> fp = fp0, p_end = fp0 + size0, base_offset = base,
                         fp_w_base = fp0 - size_leanified + base \<rparr>
                m (fp0 + zip_offset) cd_headers
                (fp0 + base + unat (cd_offset (found_eocd m fp0 size0)))
              \<and> sum_list (map record_size cd_headers) \<le> unat (cd_size (found_eocd m fp0 size0))
              \<and> fp0 + base + unat (cd_offset (found_eocd m fp0 size0))
                   + unat (cd_size (found_eocd m fp0 size0)) \<le> found_eocd_at m fp0 size0))"

subsection \<open>Archives behind a stub\<close>

text \<open>The archive \<open>stored_zip\<close> behind the four bytes \<open>STUB\<close>: its offsets are those of
  the archive alone.\<close>

definition stub_zip :: mem where
  "stub_zip = [83, 84, 85, 66,
     80, 75, 3, 4, 20, 0, 0, 0, 0, 0, 0, 0, 0, 0, 34, 248, 0, 0, 3, 0, 0, 0, 3, 0,
     0, 0, 1, 0, 0, 0, 97, 65, 32, 65,
     80, 75, 1, 2, 20, 0, 20, 0, 0, 0, 0, 0, 0, 0, 0, 0, 34, 248, 0, 0, 3, 0, 0, 0, 3, 0, 0, 0,
     1, 0, 0, 0, 0, 0, 0, 0, 0, 0, 0, 0, 0, 0, 0, 0, 0, 0, 97,
     80, 75, 5, 6, 0, 0, 0, 0, 1, 0, 1, 0, 47, 0, 0, 0, 34, 0, 0, 0, 0, 0]"

text \<open>An archive behind the same four bytes whose one entry, of seven bytes, ends
  with the magic of a directory record. With the stub in front, these four bytes
  stand where the end record says the directory starts.\<close>

definition decoy_zip :: mem where
  "decoy_zip = [83, 84, 85, 66,
     80, 75, 3, 4, 20, 0, 0, 0, 0, 0, 0, 0, 0, 0, 126, 142, 201, 168, 7, 0, 0, 0, 7, 0,
     0, 0, 1, 0, 0, 0, 97, 65, 32, 65, 80, 75, 1, 2,
     80, 75, 1, 2, 20, 0, 20, 0, 0, 0, 0, 0, 0, 0, 0, 0, 126, 142, 201, 168, 7, 0, 0, 0,
     7, 0, 0, 0, 1, 0, 0, 0, 0, 0, 0, 0, 0, 0, 0, 0, 0, 0, 0, 0, 0, 0, 97,
     80, 75, 5, 6, 0, 0, 0, 0, 1, 0, 1, 0, 47, 0, 0, 0, 38, 0, 0, 0, 0, 0]"

section \<open>Reading and writing the memory\<close>

lemma length_rdn [simp]: "length (rdn m a n) = n"
  by (simp add: rdn_def)

lemma nth_rdn [simp]: "i < n \<Longrightarrow> rdn m a n ! i = rd8 m (a + i)"
  by (simp add: rdn_def)

lemma rdn_0 [simp]: "rdn m a 0 = []"
  by (simp add: rdn_def)

lemma rdn_eq_iff: "rdn m a n = rdn m' a' n \<longleftrightarrow> (\<forall>i<n. rd8 m (a + i) = rd8 m' (a' + i))"
  by (auto simp: list_eq_iff_nth_eq)

lemma rdn_eqI: "(\<And>i. i < n \<Longrightarrow> rd8 m (a + i) = rd8 m' (a' + i)) \<Longrightarrow> rdn m a n = rdn m' a' n"
  by (simp add: rdn_eq_iff)

lemma rd8_wrn: "rd8 (wrn m a bs) i = (if a \<le> i \<and> i < a + length bs then bs ! (i - a) else rd8 m i)"
  by (auto simp: rd8_def wrn_def nth_append min_def)

lemma length_wrn: "length (wrn m a bs) = max (length m) (a + length bs)"
  by (auto simp: wrn_def)

lemma rdn_wrn_same [simp]: "rdn (wrn m a bs) a (length bs) = bs"
  by (auto simp: list_eq_iff_nth_eq rd8_wrn)

lemma rdn_wrn_disj: "a' + n \<le> a \<or> a + length bs \<le> a' \<Longrightarrow> rdn (wrn m a bs) a' n = rdn m a' n"
  by (rule rdn_eqI) (auto simp: rd8_wrn)

lemma rdn_add: "rdn m a (n + k) = rdn m a n @ rdn m (a + n) k"
  by (auto simp: list_eq_iff_nth_eq nth_append)

lemma rdn_sub: "i + k \<le> n \<Longrightarrow> rdn m (a + i) k = take k (drop i (rdn m a n))"
  by (auto simp: list_eq_iff_nth_eq add.assoc)

lemma rd8_rdn: "i < n \<Longrightarrow> rd8 (rdn m a n) i = rd8 m (a + i)"
  by (simp add: rd8_def)

lemma rd16_cong: "rdn m a 2 = rdn m' a' 2 \<Longrightarrow> rd16 m a = rd16 m' a'"
proof -
  assume h: "rdn m a 2 = rdn m' a' 2"
  have "\<And>i. i < 2 \<Longrightarrow> rd8 m (a + i) = rd8 m' (a' + i)"
    using h by (simp add: rdn_eq_iff)
  from this[of 0] this[of 1] show ?thesis
    by (simp add: rd16_def)
qed

lemma rd32_cong: "rdn m a 4 = rdn m' a' 4 \<Longrightarrow> rd32 m a = rd32 m' a'"
proof -
  assume h: "rdn m a 4 = rdn m' a' 4"
  have "\<And>i. i < 4 \<Longrightarrow> rd8 m (a + i) = rd8 m' (a' + i)"
    using h by (simp add: rdn_eq_iff)
  from this[of 0] this[of 1] this[of 2] this[of 3] show ?thesis
    by (simp add: rd32_def)
qed

lemma w16_join: "ucast (ucast w :: byte) OR push_bit 8 (ucast (ucast (drop_bit 8 w) :: byte)) = (w :: 16 word)"
  by (rule bit_word_eqI) (auto simp: bit_simps)

lemma w32_join:
  "ucast (ucast w :: byte) OR push_bit 8 (ucast (ucast (drop_bit 8 w) :: byte))
     OR push_bit 16 (ucast (ucast (drop_bit 16 w) :: byte))
     OR push_bit 24 (ucast (ucast (drop_bit 24 w) :: byte)) = (w :: 32 word)"
  apply (rule bit_word_eqI)
  subgoal for n
    by (cases "n < 8"; cases "n < 16"; cases "n < 24"; auto simp: bit_simps)
  done

lemma length_le16 [simp]: "length (le16 w) = 2"
  by (simp add: le16_def)

lemma length_le32 [simp]: "length (le32 w) = 4"
  by (simp add: le32_def)

lemma rd16_le16: "rdn m a 2 = le16 w \<Longrightarrow> rd16 m a = w"
proof -
  assume h: "rdn m a 2 = le16 w"
  have "\<And>i. i < 2 \<Longrightarrow> rd8 m (a + i) = le16 w ! i"
    using h by (metis nth_rdn)
  from this[of 0] this[of 1] show ?thesis
    by (simp add: rd16_def le16_def w16_join)
qed

lemma rd32_le32: "rdn m a 4 = le32 w \<Longrightarrow> rd32 m a = w"
proof -
  assume h: "rdn m a 4 = le32 w"
  have "\<And>i. i < 4 \<Longrightarrow> rd8 m (a + i) = le32 w ! i"
    using h by (metis nth_rdn)
  from this[of 0] this[of 1] this[of 2] this[of 3] show ?thesis
    by (simp add: rd32_def le32_def w32_join)
qed

lemma rd16_wr16_same [simp]: "rd16 (wr16 m a w) a = w"
  by (rule rd16_le16) (simp add: wr16_def rdn_wrn_same[of m a "le16 w", simplified])

lemma rd32_wr32_same [simp]: "rd32 (wr32 m a w) a = w"
  by (rule rd32_le32) (simp add: wr32_def rdn_wrn_same[of m a "le32 w", simplified])

text \<open>A write leaves what is read beside it.\<close>

lemma rd16_wrn_disj: "a' + 2 \<le> a \<or> a + length bs \<le> a' \<Longrightarrow> rd16 (wrn m a bs) a' = rd16 m a'"
  by (rule rd16_cong) (simp add: rdn_wrn_disj)

lemma rd32_wrn_disj: "a' + 4 \<le> a \<or> a + length bs \<le> a' \<Longrightarrow> rd32 (wrn m a bs) a' = rd32 m a'"
  by (rule rd32_cong) (simp add: rdn_wrn_disj)

section \<open>The fallback\<close>

lemma find_end_none:
  assumes "\<And>p. first \<le> p \<Longrightarrow> p + length pat \<le> lst \<Longrightarrow> rdn m p (length pat) \<noteq> pat"
  shows "find_end m first lst pat = lst"
proof -
  have "find (\<lambda>p. rdn m p (length pat) = pat) (rev [first..<lst + 1 - length pat]) = None"
    using assms by (auto simp: find_None_iff)
  then show ?thesis by (simp add: find_end_def)
qed

lemma Format_Leanify_same:
  "rdn (z_buf (Format_Leanify m fp0 size0 sl out)) (z_fp (Format_Leanify m fp0 size0 sl out)) size0
     = rdn m fp0 size0"
  using rdn_wrn_same[of m "fp0 - sl" "rdn m fp0 size0"]
  by (simp add: Format_Leanify_def memmove_def)

lemma Format_Leanify_size [simp]: "z_size (Format_Leanify m fp0 size0 sl out) = size0"
  by (simp add: Format_Leanify_def)


text \<open>
  C7. When no end-record magic lies in the last 65535 + 4 bytes of the buffer, or the
  record that was found would run past the end of the buffer, the function falls back
  on \<open>Format::Leanify\<close>: the output has the bytes of the input and the length returned
  is the input's.
\<close>

theorem C7_passthrough:
  assumes "(\<forall>p. max fp0 (fp0 + size0 - 65535 - 4) \<le> p \<and> p + 4 \<le> fp0 + size0 \<longrightarrow> rdn m p 4 \<noteq> eocd_magic)
           \<or> fp0 + size0 < find_end m (max fp0 (fp0 + size0 - 65535 - 4)) (fp0 + size0) eocd_magic + 22"
  shows "\<exists>z. Leanify E m fp0 size0 size_leanified = Some z
             \<and> rdn (z_buf z) (z_fp z) (z_size z) = rdn m fp0 size0
             \<and> z_size z = size0"
proof -
  let ?p = "find_end m (max fp0 (fp0 + size0 - 65535 - 4)) (fp0 + size0) eocd_magic"
  have len: "length eocd_magic = 4"
    by (simp add: eocd_magic_def)
  have "?p = fp0 + size0 \<or> fp0 + size0 < ?p + 22"
  proof (cases "fp0 + size0 < ?p + 22")
    case False
    with assms have "\<And>p. max fp0 (fp0 + size0 - 65535 - 4) \<le> p \<Longrightarrow> p + length eocd_magic \<le> fp0 + size0
        \<Longrightarrow> rdn m p (length eocd_magic) \<noteq> eocd_magic"
      by (simp add: len)
    then have "?p = fp0 + size0"
      by (rule find_end_none)
    then show ?thesis ..
  qed simp
  then have "\<exists>out. Leanify E m fp0 size0 size_leanified
                 = Some (Format_Leanify m fp0 size0 size_leanified out)"
    by (auto simp: Leanify_def Let_def p_searchstart_def)
  then show ?thesis
    by (auto simp: Format_Leanify_same)
qed

theorem C7_passthrough_witness:
  "find_end cut_short 10 30 eocd_magic = 18
   \<and> 30 < find_end cut_short 10 30 eocd_magic + 22
   \<and> (\<exists>z. Leanify toyE cut_short 10 20 3 = Some z
          \<and> rdn (z_buf z) (z_fp z) (z_size z) = rdn cut_short 10 20 \<and> z_size z = 20)"
proof -
  have f: "find_end cut_short 10 30 eocd_magic = 18"
    by code_simp
  then have h: "30 < find_end cut_short 10 30 eocd_magic + 22"
    by simp
  then have "10 + 20 < find_end cut_short (max 10 (10 + 20 - 65535 - 4)) (10 + 20) eocd_magic + 22"
    by simp
  from C7_passthrough[where E = toyE and size_leanified = 3, OF disjI2, OF this] f h show ?thesis
    by blast
qed

lemma same_outside_refl [simp]: "same_outside m m lo hi"
  by (simp add: same_outside_def)

lemma same_outside_trans:
  "same_outside m m' lo hi \<Longrightarrow> same_outside m' m'' lo hi \<Longrightarrow> same_outside m m'' lo hi"
  by (simp add: same_outside_def)

lemma same_outside_mono:
  "same_outside m m' lo hi \<Longrightarrow> lo' \<le> lo \<Longrightarrow> hi \<le> hi' \<Longrightarrow> same_outside m m' lo' hi'"
  by (auto simp: same_outside_def)

lemma same_outside_wrn:
  "lo \<le> a \<Longrightarrow> a + length bs \<le> hi \<Longrightarrow> same_outside m (wrn m a bs) lo hi"
  by (auto simp: same_outside_def rd8_wrn)

lemma same_outside_wrn_step:
  "same_outside m m' lo hi \<Longrightarrow> lo \<le> a \<Longrightarrow> a + length bs \<le> hi \<Longrightarrow> same_outside m (wrn m' a bs) lo hi"
  by (auto simp: same_outside_def rd8_wrn)

lemma same_outside_rdn:
  "same_outside m m' lo hi \<Longrightarrow> a + n \<le> lo \<or> hi \<le> a \<Longrightarrow> rdn m' a n = rdn m a n"
  by (rule rdn_eqI) (auto simp: same_outside_def)

lemma same_outside_rd16:
  "same_outside m m' lo hi \<Longrightarrow> a + 2 \<le> lo \<or> hi \<le> a \<Longrightarrow> rd16 m' a = rd16 m a"
  by (rule rd16_cong) (simp add: same_outside_rdn)

lemma same_outside_rd32:
  "same_outside m m' lo hi \<Longrightarrow> a + 4 \<le> lo \<or> hi \<le> a \<Longrightarrow> rd32 m' a = rd32 m a"
  by (rule rd32_cong) (simp add: same_outside_rdn)

text \<open>Reading what \<open>memmove\<close> has put down.\<close>

lemma rd8_memmove:
  "rd8 (memmove m dst src n) i = (if dst \<le> i \<and> i < dst + n then rd8 m (src + (i - dst)) else rd8 m i)"
  by (auto simp: memmove_def rd8_wrn)

lemma rdn_memmove_in:
  "k + j \<le> n \<Longrightarrow> rdn (memmove m dst src n) (dst + k) j = rdn m (src + k) j"
  by (rule rdn_eqI) (simp add: rd8_memmove add.assoc)

lemma rd16_memmove_in: "k + 2 \<le> n \<Longrightarrow> rd16 (memmove m dst src n) (dst + k) = rd16 m (src + k)"
  by (rule rd16_cong) (simp add: rdn_memmove_in)

lemma rd32_memmove_in: "k + 4 \<le> n \<Longrightarrow> rd32 (memmove m dst src n) (dst + k) = rd32 m (src + k)"
  by (rule rd32_cong) (simp add: rdn_memmove_in)

lemma same_outside_memmove: "lo \<le> dst \<Longrightarrow> dst + n \<le> hi \<Longrightarrow> same_outside m (memmove m dst src n) lo hi"
  by (simp add: memmove_def same_outside_wrn)

text \<open>Field writes beside a read.\<close>

lemma rd16_wr16_disj: "a' + 2 \<le> a \<or> a + 2 \<le> a' \<Longrightarrow> rd16 (wr16 m a w) a' = rd16 m a'"
  by (simp add: wr16_def rd16_wrn_disj)

lemma rd16_wr32_disj: "a' + 2 \<le> a \<or> a + 4 \<le> a' \<Longrightarrow> rd16 (wr32 m a w) a' = rd16 m a'"
  by (simp add: wr32_def rd16_wrn_disj)

lemma rd32_wr16_disj: "a' + 4 \<le> a \<or> a + 2 \<le> a' \<Longrightarrow> rd32 (wr16 m a w) a' = rd32 m a'"
  by (simp add: wr16_def rd32_wrn_disj)

lemma rd32_wr32_disj: "a' + 4 \<le> a \<or> a + 4 \<le> a' \<Longrightarrow> rd32 (wr32 m a w) a' = rd32 m a'"
  by (simp add: wr32_def rd32_wrn_disj)

lemma rdn_wr16_disj: "a' + n \<le> a \<or> a + 2 \<le> a' \<Longrightarrow> rdn (wr16 m a w) a' n = rdn m a' n"
  by (simp add: wr16_def rdn_wrn_disj)

lemma rdn_wr32_disj: "a' + n \<le> a \<or> a + 4 \<le> a' \<Longrightarrow> rdn (wr32 m a w) a' n = rdn m a' n"
  by (simp add: wr32_def rdn_wrn_disj)

lemma same_outside_wr16: "same_outside m m' lo hi \<Longrightarrow> lo \<le> a \<Longrightarrow> a + 2 \<le> hi \<Longrightarrow> same_outside m (wr16 m' a w) lo hi"
  by (simp add: wr16_def same_outside_wrn_step)

lemma same_outside_wr32: "same_outside m m' lo hi \<Longrightarrow> lo \<le> a \<Longrightarrow> a + 4 \<le> hi \<Longrightarrow> same_outside m (wr32 m' a w) lo hi"
  by (simp add: wr32_def same_outside_wrn_step)

lemmas rd_disj = rd16_wr16_disj rd16_wr32_disj rd32_wr16_disj rd32_wr32_disj rdn_wr16_disj
  rdn_wr32_disj rd16_wrn_disj rd32_wrn_disj rdn_wrn_disj

lemma and_not_8_idem: "(w :: 16 word) AND 8 = 0 \<Longrightarrow> w AND NOT 8 = w"
proof -
  assume h: "w AND 8 = 0"
  have "w AND NOT 8 = (w AND NOT 8) OR (w AND 8)"
    using h by simp
  also have "\<dots> = w AND (NOT 8 OR 8)"
    by (simp only: bit.conj_disj_distrib)
  also have "\<dots> = w"
    by simp
  finally show ?thesis .
qed

lemma and_not_8_clear [simp]: "((w :: 16 word) AND NOT 8) AND 8 = 0"
  by (simp add: and.assoc)

lemma and_m9_idem: "(w :: 16 word) AND 8 = 0 \<Longrightarrow> w AND - 9 = w"
  using and_not_8_idem[of w] by simp

lemma and_m9_clear [simp]: "((w :: 16 word) AND - 9) AND 8 = 0"
  using and_not_8_clear[of w] by simp

lemma move_header_facts:
  assumes mh: "move_header E st cd p_read fnl = (st1, p_read1, flg, oc, filename)"
  shows "p_write st1 = p_write st"
    and "same_outside (buf st) (buf st1) (p_write st) (p_write st + 30 + unat fnl)"
    and "flg = rd16 (buf st) (p_read + 6)"
    and "rd16 (buf st1) (p_write st + 6) = flg AND NOT 8"
    and "rd16 (buf st1) (p_write st + 8) = rd16 (buf st) (p_read + 8)"
    and "oc = (if flg AND 8 \<noteq> 0 then compressed_size cd else rd32 (buf st) (p_read + 18))"
    and "rd32 (buf st1) (p_write st + 18) = oc"
    and "rd32 (buf st1) (p_write st + 14) = (if flg AND 8 \<noteq> 0 then crc32 cd else rd32 (buf st) (p_read + 14))"
    and "rd32 (buf st1) (p_write st + 22)
           = (if flg AND 8 \<noteq> 0 then uncompressed_size cd else rd32 (buf st) (p_read + 22))"
    and "rd16 (buf st1) (p_write st + 28) = 0"
    and "p_read1 = p_read + unat (rd16 (buf st) (p_read + 28))"
    and "filename = rdn (buf st) (p_read + 30) (unat fnl)"
    and "rdn (buf st1) (p_write st + 30) (unat fnl) = filename"
    and "rdn (buf st1) (p_write st) 4 = rdn (buf st) p_read 4"
proof -
  define hdr where "hdr = p_write st"
  define m where "m = buf st"
  define hs where "hs = 30 + unat fnl"
  define m1 where "m1 = memmove m hdr p_read hs"
  define m2 where "m2 = (if rd16 m1 (hdr + 28) \<noteq> 0 then wr16 m1 (hdr + 28) 0 else m1)"
  define m3 where "m3 = (if rd16 m2 (hdr + 6) AND 8 \<noteq> 0
     then wr32 (wr32 (wr32 (wr16 m2 (hdr + 6) (rd16 m2 (hdr + 6) AND NOT 8)) (hdr + 14) (crc32 cd))
                 (hdr + 18) (compressed_size cd)) (hdr + 22) (uncompressed_size cd)
     else m2)"
  have res: "buf st1 = m3" "p_write st1 = p_write st"
      "p_read1 = (if rd16 m1 (hdr + 28) \<noteq> 0 then p_read + unat (rd16 m1 (hdr + 28)) else p_read)"
      "flg = rd16 m2 (hdr + 6)"
      "oc = (if rd16 m2 (hdr + 6) AND 8 \<noteq> 0 then compressed_size cd else rd32 m2 (hdr + 18))"
      "filename = rdn m2 (hdr + 30) (unat fnl)"
    using mh
    by (auto simp: move_header_def Let_def m1_def m2_def m3_def hs_def hdr_def m_def say_def
             split: if_splits)
  have hs30: "30 \<le> hs" by (simp add: hs_def)
  have r16_1: "\<And>k. k + 2 \<le> hs \<Longrightarrow> rd16 m1 (hdr + k) = rd16 m (p_read + k)"
    by (simp add: m1_def rd16_memmove_in)
  have r32_1: "\<And>k. k + 4 \<le> hs \<Longrightarrow> rd32 m1 (hdr + k) = rd32 m (p_read + k)"
    by (simp add: m1_def rd32_memmove_in)
  have rn_1: "\<And>k j. k + j \<le> hs \<Longrightarrow> rdn m1 (hdr + k) j = rdn m (p_read + k) j"
    by (simp add: m1_def rdn_memmove_in)
  have r16_2: "\<And>k. k + 2 \<le> 28 \<Longrightarrow> rd16 m2 (hdr + k) = rd16 m (p_read + k)"
    using hs30 by (simp add: m2_def rd16_wr16_disj r16_1)
  have r32_2: "\<And>k. k + 4 \<le> 28 \<Longrightarrow> rd32 m2 (hdr + k) = rd32 m (p_read + k)"
    using hs30 by (simp add: m2_def rd32_wr16_disj r32_1)
  have ex_2: "rd16 m2 (hdr + 28) = 0"
    by (simp add: m2_def)
  have fn_2: "rdn m2 (hdr + 30) (unat fnl) = rdn m (p_read + 30) (unat fnl)"
    by (simp add: m2_def rdn_wr16_disj rn_1 hs_def)
  have mg_1: "rdn m1 hdr 4 = rdn m p_read 4"
    using rn_1[of 0 4] hs30 by simp
  have mg_2: "rdn m2 hdr 4 = rdn m p_read 4"
    by (simp add: m2_def rdn_wr16_disj mg_1)
  have so_1: "same_outside m m1 hdr (hdr + hs)"
    by (simp add: m1_def same_outside_memmove)
  have so_2: "same_outside m m2 hdr (hdr + hs)"
    using so_1 hs30 by (simp add: m2_def same_outside_wr16)
  have so_3: "same_outside m m3 hdr (hdr + hs)"
    using so_2 hs30 by (simp add: m3_def same_outside_wr16 same_outside_wr32)
  have flg: "flg = rd16 m (p_read + 6)"
    by (simp add: res r16_2)
  show "p_write st1 = p_write st" by (rule res)
  show "same_outside (buf st) (buf st1) (p_write st) (p_write st + 30 + unat fnl)"
    using so_3 by (simp add: res hs_def hdr_def m_def add.assoc)
  show "flg = rd16 (buf st) (p_read + 6)"
    using flg by (simp add: m_def)
  show "rd16 (buf st1) (p_write st + 6) = flg AND NOT 8"
    by (simp add: res(1,4) m3_def rd_disj and_m9_idem flip: hdr_def)
  show "rd16 (buf st1) (p_write st + 8) = rd16 (buf st) (p_read + 8)"
    by (simp add: res(1) m3_def rd_disj r16_2 flip: hdr_def m_def)
  show "oc = (if flg AND 8 \<noteq> 0 then compressed_size cd else rd32 (buf st) (p_read + 18))"
    by (simp add: res(4,5) r32_2 flip: m_def)
  show "rd32 (buf st1) (p_write st + 18) = oc"
    by (simp add: res(1,5) m3_def rd_disj flip: hdr_def)
  show "rd32 (buf st1) (p_write st + 14) = (if flg AND 8 \<noteq> 0 then crc32 cd else rd32 (buf st) (p_read + 14))"
    by (simp add: res(1,4) m3_def rd_disj r32_2 flip: hdr_def m_def)
  show "rd32 (buf st1) (p_write st + 22)
           = (if flg AND 8 \<noteq> 0 then uncompressed_size cd else rd32 (buf st) (p_read + 22))"
    by (simp add: res(1,4) m3_def rd_disj r32_2 flip: hdr_def m_def)
  show "rd16 (buf st1) (p_write st + 28) = 0"
    by (simp add: res(1) m3_def rd_disj ex_2 flip: hdr_def)
  show "p_read1 = p_read + unat (rd16 (buf st) (p_read + 28))"
    using hs30 by (simp add: res(3) r16_1 flip: m_def)
  show fn: "filename = rdn (buf st) (p_read + 30) (unat fnl)"
    by (simp add: res(6) fn_2 m_def)
  show "rdn (buf st1) (p_write st + 30) (unat fnl) = filename"
    by (simp add: res(1) fn m3_def rd_disj fn_2 flip: hdr_def m_def)
  show "rdn (buf st1) (p_write st) 4 = rdn (buf st) p_read 4"
    using mg_2 by (simp add: res(1) m3_def rd_disj flip: hdr_def m_def)
qed

lemma unat_of_nat32: "n < 2 ^ 32 \<Longrightarrow> unat (of_nat n :: 32 word) = n"
  by (simp add: unat_of_nat)

lemma unat_lt32 [simp]: "unat (w :: 32 word) < 2 ^ 32"
  using unsigned_less[of w, where 'a = nat] by simp

lemma rd32_memmove_disj:
  "a' + 4 \<le> dst \<or> dst + n \<le> a' \<Longrightarrow> rd32 (memmove m dst src n) a' = rd32 m a'"
  by (simp add: memmove_def rd32_wrn_disj)

lemma rd16_memmove_disj:
  "a' + 2 \<le> dst \<or> dst + n \<le> a' \<Longrightarrow> rd16 (memmove m dst src n) a' = rd16 m a'"
  by (simp add: memmove_def rd16_wrn_disj)

lemma rdn_memmove_disj:
  "a' + k \<le> dst \<or> dst + n \<le> a' \<Longrightarrow> rdn (memmove m dst src n) a' k = rdn m a' k"
  by (simp add: memmove_def rdn_wrn_disj)

lemma rdn_memmove_same [simp]: "rdn (memmove m dst src n) dst n = rdn m src n"
  using rdn_memmove_in[of 0 n n m dst src] by simp

lemma lstate_same [simp]: "st\<lparr>buf := buf st, p_write := p_write st\<rparr> = st"
  by simp

text \<open>Lines 196-208, branch by branch.\<close>

lemma store_or_move_moved:
  assumes "\<not> (rd16 (buf st) (hdr + 8) = 0 \<and> depth E + 1 \<le> max_depth E \<and> flg AND 1 = 0)"
    and "rd32 (buf st) (hdr + 18) = oc" and "hdr + 30 \<le> p_write st"
  shows "store_or_move E st cd hdr p_read flg oc fn =
           (st\<lparr>buf := memmove (buf st) (p_write st) p_read (unat oc),
               p_write := p_write st + unat oc\<rparr>, cd)"
  using assms by (auto simp: store_or_move_def Let_def rd32_memmove_disj)

lemma store_or_move_empty:
  assumes "rd16 (buf st) (hdr + 8) = 0" "depth E + 1 \<le> max_depth E" "flg AND 1 = 0"
    and "rd32 (buf st) (hdr + 18) = 0"
  shows "store_or_move E st cd hdr p_read flg 0 fn = (st, cd)"
  using assms by (simp add: store_or_move_def Let_def)

lemma store_or_move_leanified:
  assumes "rd16 (buf st) (hdr + 8) = 0" "depth E + 1 \<le> max_depth E" "flg AND 1 = 0"
    and "oc \<noteq> 0" and "hdr + 30 \<le> p_write st"
    and "out = LeanifyFile E (rdn (buf st) p_read (unat oc)) fn" and "length out < 2 ^ 32"
  shows "store_or_move E st cd hdr p_read flg oc fn =
           (st\<lparr>buf := wr32 (wr32 (wr32 (wrn (buf st) (p_write st) out) (hdr + 22) (of_nat (length out)))
                          (hdr + 18) (of_nat (length out))) (hdr + 14) (mz_crc32 E out),
               p_write := p_write st + length out\<rparr>,
            cd\<lparr>uncompressed_size := of_nat (length out), compressed_size := of_nat (length out),
               crc32 := mz_crc32 E out\<rparr>)"
proof -
  let ?n = "of_nat (length out) :: 32 word"
  let ?m = "wr32 (wr32 (wrn (buf st) (p_write st) out) (hdr + 22) ?n) (hdr + 18) ?n"
  have n: "unat ?n = length out"
    using assms(7) by (simp add: unat_of_nat32)
  have "rdn ?m (p_write st) (length out) = out"
    using assms(5) by (simp add: rd_disj)
  moreover have "rd32 (wr32 ?m (hdr + 14) c) (hdr + 18) = ?n" for c
    by (simp add: rd_disj)
  moreover have "LeanifyFile E (rdn (buf st) p_read (unat oc)) fn = out"
    by (simp add: assms(6))
  ultimately show ?thesis
    using assms(1-4) n by (simp add: store_or_move_def Let_def)
qed

text \<open>Lines 210-259, branch by branch.\<close>

lemma deflate_entry_empty:
  assumes "rd32 (buf st) (hdr + 22) = 0"
  shows "deflate_entry E st cd hdr p_read oc fn =
           (st\<lparr>buf := wr32 (wr16 (buf st) (hdr + 8) 0) (hdr + 18) 0\<rparr>,
            cd\<lparr>compression_method := 0, compressed_size := 0\<rparr>)"
  using assms by (simp add: deflate_entry_def)

lemma deflate_entry_failed:
  assumes "rd32 (buf st) (hdr + 22) \<noteq> 0"
    and "\<not> inflated_ok E (rdn (buf st) p_read (unat oc)) (rd32 (buf st) (hdr + 22)) (rd32 (buf st) (hdr + 14))"
  shows "deflate_entry E st cd hdr p_read oc fn =
           (say Decompression_failed
              (st\<lparr>buf := memmove (buf st) (p_write st) p_read (unat oc),
                  p_write := p_write st + unat oc\<rparr>), cd)"
  using assms by (auto simp: deflate_entry_def inflated_ok_def Let_def split: option.splits)

lemma deflate_entry_ok:
  assumes "rd32 (buf st) (hdr + 22) \<noteq> 0"
    and "tinfl_decompress_mem_to_heap E (rdn (buf st) p_read (unat oc)) = Some buffer"
    and "length buffer = unat (rd32 (buf st) (hdr + 22))"
    and "rd32 (buf st) (hdr + 14) = mz_crc32 E buffer"
    and "leanified = LeanifyFile E buffer fn" and "length leanified < 2 ^ 32"
    and "out = ZopfliDeflate E leanified"
    and "rd32 (buf st) (hdr + 18) = oc" and "hdr + 30 \<le> p_write st"
  shows "deflate_entry E st cd hdr p_read oc fn =
     (if length leanified \<le> length out \<and> length leanified \<le> unat oc
      then (st\<lparr>buf := wrn (wr32 (wr32 (wr32 (wr16 (buf st) (hdr + 8) 0) (hdr + 14) (mz_crc32 E leanified))
                                 (hdr + 18) (of_nat (length leanified)))
                             (hdr + 22) (of_nat (length leanified))) (p_write st) leanified,
               p_write := p_write st + length leanified\<rparr>,
            cd\<lparr>compression_method := 0, crc32 := mz_crc32 E leanified,
               compressed_size := of_nat (length leanified),
               uncompressed_size := of_nat (length leanified)\<rparr>)
      else if length out < unat oc
      then (st\<lparr>buf := wrn (wr32 (wr32 (wr32 (buf st) (hdr + 14) (mz_crc32 E leanified))
                                 (hdr + 18) (of_nat (length out)))
                             (hdr + 22) (of_nat (length leanified))) (p_write st) out,
               p_write := p_write st + length out\<rparr>,
            cd\<lparr>crc32 := mz_crc32 E leanified, compressed_size := of_nat (length out),
               uncompressed_size := of_nat (length leanified)\<rparr>)
      else (st\<lparr>buf := memmove (buf st) (p_write st) p_read (unat oc),
               p_write := p_write st + unat oc\<rparr>, cd))"
proof -
  let ?nu = "of_nat (length leanified) :: 32 word"
  have nu: "unat ?nu = length leanified"
    using assms(6) by (simp add: unat_of_nat32)
  have le: "?nu \<le> oc \<longleftrightarrow> length leanified \<le> unat oc"
    by (simp add: word_le_nat_alt nu)
  have eq5: "LeanifyFile E buffer fn = leanified" and eq7: "ZopfliDeflate E leanified = out"
    by (simp_all add: assms(5,7))
  have tk: "take (unat ?nu) leanified = leanified"
    by (simp add: nu)
  have a: "rd32 (wrn (wr32 (wr32 m (hdr + 18) w) (hdr + 22) v) (p_write st) bs) (hdr + 18) = w" for m w v bs
    using assms(9) by (simp add: rd_disj)
  have b: "length out < unat oc \<Longrightarrow> unat (of_nat (length out) :: 32 word) = length out"
    using unat_lt32[of oc] by (simp add: unat_of_nat32)
  have c: "rd32 (memmove (buf st) (p_write st) p_read (unat oc)) (hdr + 18) = oc"
    using assms(8,9) by (simp add: rd32_memmove_disj)
  show ?thesis
    using assms(1-4)
    by (simp add: deflate_entry_def Let_def eq5 eq7 tk le nu a b c)
qed

lemma warned_simps [simp]:
  "buf (warned st fnl cd) = buf st" "p_write (warned st fnl cd) = p_write st"
  by (simp_all add: warned_def say_def)

lemma say_simps [simp]:
  "buf (say d st) = buf st" "p_write (say d st) = p_write st" "cerr (say d st) = cerr st @ [d]"
  by (simp_all add: say_def)

lemma local_entry_Skipped:
  assumes "\<not> (lfh c cd + 30 \<le> p_end c \<and> rdn (buf st) (lfh c cd) 4 = header_magic)"
  shows "local_entry E c st cd = (Skipped, say (Invalid_local_header_offset (local_header_offset cd)) st, cd)"
  using assms by (auto simp: local_entry_def lfh_def Let_def)

lemma local_entry_Written:
  assumes ok: "entry_ok c (buf st) cd"
    and mh: "move_header E (warned st (rd16 (buf st) (lfh c cd + 26)) cd)
               (cd\<lparr>local_header_offset := of_nat (p_write st - fp_w_base c)\<rparr>)
               (lfh c cd) (rd16 (buf st) (lfh c cd + 26)) = (st1, p1, flg, oc, fn)"
  shows "local_entry E c st cd =
     (case (if rd16 (buf st1) (p_write st + 8) \<noteq> 8 \<or> flg AND 1 \<noteq> 0 \<or> is_fast E
            then store_or_move E (st1\<lparr>p_write := p_write st + (30 + unat (rd16 (buf st) (lfh c cd + 26)))\<rparr>)
                   (cd\<lparr>local_header_offset := of_nat (p_write st - fp_w_base c)\<rparr>)
                   (p_write st) (payload_at (buf st) (lfh c cd)) flg oc fn
            else deflate_entry E (st1\<lparr>p_write := p_write st + (30 + unat (rd16 (buf st) (lfh c cd + 26)))\<rparr>)
                   (cd\<lparr>local_header_offset := of_nat (p_write st - fp_w_base c)\<rparr>)
                   (p_write st) (payload_at (buf st) (lfh c cd)) oc fn)
      of (st', cd') \<Rightarrow> (Written, st', cd'))"
proof -
  note f = move_header_facts[OF mh, simplified]
  have oc: "oc = declared_size (buf st) (lfh c cd) cd"
    by (simp add: f declared_size_def)
  have p1: "p1 = lfh c cd + unat (rd16 (buf st) (lfh c cd + 28))"
    by (simp add: f)
  have pp: "p1 + (30 + unat (rd16 (buf st) (lfh c cd + 26))) = payload_at (buf st) (lfh c cd)"
    by (simp add: p1 payload_at_def)
  have chk: "\<not> p_end c < p1 + unat oc"
    using ok by (simp add: entry_ok_def oc p1)
  have chk0: "lfh c cd + 30 \<le> p_end c" "rdn (buf st) (lfh c cd) 4 = header_magic"
    using ok by (simp_all add: entry_ok_def lfh_def)
  have chk1: "lfh c cd + (30 + unat (rd16 (buf st) (lfh c cd + 26))) \<le> p_end c"
    using ok by (simp add: entry_ok_def)
  show ?thesis
  proof (cases "rd16 (buf st) (lfh c cd + 26) \<noteq> filename_len cd")
    case True
    with mh have mh1: "move_header E (say Filename_length_mismatch st)
               (cd\<lparr>local_header_offset := of_nat (p_write st - fp_w_base c)\<rparr>)
               (lfh c cd) (rd16 (buf st) (lfh c cd + 26)) = (st1, p1, flg, oc, fn)"
      by (simp add: warned_def)
    show ?thesis
      using chk0 chk1 chk True
      by (simp add: local_entry_def Let_def mh1 pp flip: lfh_def)
  next
    case False
    with mh have mh1: "move_header E st
               (cd\<lparr>local_header_offset := of_nat (p_write st - fp_w_base c)\<rparr>)
               (lfh c cd) (rd16 (buf st) (lfh c cd + 26)) = (st1, p1, flg, oc, fn)"
      by (simp add: warned_def)
    show ?thesis
      using chk0 chk1 chk False mh1 pp
      by (simp add: local_entry_def Let_def flip: lfh_def)
  qed
qed

section \<open>The deflate branch\<close>

lemma entry_projections:
  "local_entry E c st cd = (v, st', cd') \<Longrightarrow>
     entry_verdict E c st cd = v \<and> entry_state E c st cd = st' \<and> entry_cd E c st cd = cd'"
  by (simp add: entry_verdict_def entry_state_def entry_cd_def)

text \<open>What the deflate branch finds when it is reached: the header as \<open>move_header\<close> left
  it, and the payload of the input still in place if the write cursor is not past
  the header that is read.\<close>

lemma moved_payload:
  assumes mh: "move_header E st0 cd0 p (rd16 (buf st0) (p + 26)) = (st1, p1, flg, oc, fn)"
    and ahead: "p_write st0 \<le> p"
  shows "rdn (buf st1) (payload_at (buf st0) p) n = rdn (buf st0) (payload_at (buf st0) p) n"
proof -
  note f = move_header_facts[OF mh]
  show ?thesis
    by (rule same_outside_rdn[OF f(2)]) (use ahead in \<open>simp add: payload_at_def\<close>)
qed

text \<open>
  C2. A deflate entry with a nonzero declared uncompressed size whose payload inflates
  with the declared length and CRC is written as follows: the leanified bytes stored,
  if they are no longer than both the recompressed stream and the original one;
  else the recompressed stream, if it is shorter than the original one; else the
  original stream. Method, CRC and sizes are set to the choice in the header and in
  the directory entry; nothing is set when the original stream is kept.
\<close>

theorem C2_deflate_choice:
  fixes E c st cd buffer leanified out
  defines "m \<equiv> buf st" and "p \<equiv> lfh c cd" and "hdr \<equiv> p_write st"
  defines "data \<equiv> p_write st + (30 + unat (rd16 (buf st) (lfh c cd + 26)))"
  defines "oc \<equiv> declared_size (buf st) (lfh c cd) cd"
  defines "st' \<equiv> entry_state E c st cd" and "cd' \<equiv> entry_cd E c st cd"
  assumes ok: "entry_ok c m cd" and ahead: "p_write st \<le> p"
    and deflate: "rd16 m (p + 8) = 8" "compression_method cd = 8"
    and plain: "rd16 m (p + 6) AND 1 = 0" "\<not> is_fast E"
    and nonempty: "declared_usize m p cd \<noteq> 0"
    and inflated: "tinfl_decompress_mem_to_heap E (rdn m (payload_at m p) (unat oc)) = Some buffer"
      "length buffer = unat (declared_usize m p cd)" "declared_crc m p cd = mz_crc32 E buffer"
    and lean: "leanified = LeanifyFile E buffer (rdn m (p + 30) (unat (rd16 m (p + 26))))"
      "length leanified \<le> length buffer"
    and out: "out = ZopfliDeflate E leanified"
  shows "entry_verdict E c st cd = Written \<and>
    (if length leanified \<le> length out \<and> length leanified \<le> unat oc
     then rdn (buf st') data (length leanified) = leanified \<and> p_write st' = data + length leanified
        \<and> rd16 (buf st') (hdr + 8) = 0 \<and> compression_method cd' = 0
        \<and> rd32 (buf st') (hdr + 14) = mz_crc32 E leanified \<and> crc32 cd' = mz_crc32 E leanified
        \<and> rd32 (buf st') (hdr + 18) = of_nat (length leanified)
        \<and> compressed_size cd' = of_nat (length leanified)
        \<and> rd32 (buf st') (hdr + 22) = of_nat (length leanified)
        \<and> uncompressed_size cd' = of_nat (length leanified)
     else if length out < unat oc
     then rdn (buf st') data (length out) = out \<and> p_write st' = data + length out
        \<and> rd16 (buf st') (hdr + 8) = 8 \<and> compression_method cd' = 8
        \<and> rd32 (buf st') (hdr + 14) = mz_crc32 E leanified \<and> crc32 cd' = mz_crc32 E leanified
        \<and> rd32 (buf st') (hdr + 18) = of_nat (length out)
        \<and> compressed_size cd' = of_nat (length out)
        \<and> rd32 (buf st') (hdr + 22) = of_nat (length leanified)
        \<and> uncompressed_size cd' = of_nat (length leanified)
     else rdn (buf st') data (unat oc) = rdn m (payload_at m p) (unat oc)
        \<and> p_write st' = data + unat oc
        \<and> rd16 (buf st') (hdr + 8) = 8 \<and> compression_method cd' = 8
        \<and> rd32 (buf st') (hdr + 14) = declared_crc m p cd \<and> crc32 cd' = crc32 cd
        \<and> rd32 (buf st') (hdr + 18) = oc \<and> compressed_size cd' = compressed_size cd
        \<and> rd32 (buf st') (hdr + 22) = declared_usize m p cd
        \<and> uncompressed_size cd' = uncompressed_size cd)"
proof -
  define fnl where "fnl = rd16 m (p + 26)"
  define cd0 where "cd0 = cd\<lparr>local_header_offset := of_nat (p_write st - fp_w_base c)\<rparr>"
  obtain st1 p1 flg oc1 fn where
    mh: "move_header E (warned st fnl cd) cd0 p fnl = (st1, p1, flg, oc1, fn)"
    by (cases "move_header E (warned st fnl cd) cd0 p fnl") auto
  have mh': "move_header E (warned st fnl cd) cd0 p (rd16 (buf (warned st fnl cd)) (p + 26))
               = (st1, p1, flg, oc1, fn)"
    using mh by (simp add: fnl_def m_def)
  note f = move_header_facts[OF mh, simplified, folded m_def hdr_def]
  define st2 where "st2 = st1\<lparr>p_write := hdr + (30 + unat fnl)\<rparr>"
  have oc1: "oc1 = oc"
    by (simp add: f oc_def declared_size_def cd0_def m_def p_def)
  have flg: "flg AND 1 = 0"
    using plain by (simp add: f)
  have meth: "rd16 (buf st1) (hdr + 8) = 8"
    using deflate by (simp add: f)
  have us: "rd32 (buf st2) (hdr + 22) = declared_usize m p cd"
    by (simp add: st2_def f declared_usize_def cd0_def m_def)
  have cr: "rd32 (buf st2) (hdr + 14) = declared_crc m p cd"
    by (simp add: st2_def f declared_crc_def cd0_def m_def)
  have cs: "rd32 (buf st2) (hdr + 18) = oc"
    using f(7) by (simp add: st2_def oc1)
  have pl: "rdn (buf st2) (payload_at m p) (unat oc) = rdn m (payload_at m p) (unat oc)"
    using moved_payload[OF mh'] ahead by (simp add: st2_def m_def)
  have fn: "fn = rdn m (p + 30) (unat (rd16 m (p + 26)))"
    by (simp add: f fnl_def)
  have le: "local_entry E c st cd =
      (case deflate_entry E st2 cd0 hdr (payload_at m p) oc fn of (st', cd') \<Rightarrow> (Written, st', cd'))"
    using local_entry_Written[OF ok[unfolded m_def], of E st1 p1 flg oc1 fn] mh flg meth plain(2)
    by (simp add: fnl_def cd0_def st2_def m_def p_def hdr_def oc1)
  have len: "length leanified < 2 ^ 32"
    using lean(2) inflated(2) unat_lt32[of "declared_usize m p cd"] by simp
  have pw2: "hdr + 30 \<le> p_write st2" "p_write st2 = data"
    by (simp_all add: st2_def data_def fnl_def m_def p_def hdr_def)
  have lf: "leanified = LeanifyFile E buffer fn"
    by (simp add: lean(1) fn)
  note d = deflate_entry_ok[where st = st2 and hdr = hdr and E = E and p_read = "payload_at m p"
      and oc = oc and buffer = buffer and fn = fn and leanified = leanified and out = out and cd = cd0,
      unfolded us cr cs pl, OF nonempty inflated(1) inflated(2) inflated(3) lf len out refl pw2(1)]
  have d': "deflate_entry E st2 cd0 hdr (payload_at m p) oc fn = (st', cd')"
    using le by (simp add: st'_def cd'_def entry_state_def entry_cd_def split: prod.splits)
  have v: "entry_verdict E c st cd = Written"
    using le by (simp add: entry_verdict_def split: prod.splits)
  have ncl: "length out < unat oc \<Longrightarrow> unat (of_nat (length out) :: 32 word) = length out"
    using unat_lt32[of oc] by (simp add: unat_of_nat32)
  have cdm: "compression_method cd0 = 8" "crc32 cd0 = crc32 cd" "compressed_size cd0 = compressed_size cd"
      "uncompressed_size cd0 = uncompressed_size cd"
    using deflate(2) by (simp_all add: cd0_def)
  have meth2: "rd16 (buf st2) (hdr + 8) = 8"
    using meth by (simp add: st2_def)
  show ?thesis
  proof (cases "length leanified \<le> length out \<and> length leanified \<le> unat oc")
    case True
    from d d' have e: "st' = st2\<lparr>buf := wrn (wr32 (wr32 (wr32 (wr16 (buf st2) (hdr + 8) 0) (hdr + 14) (mz_crc32 E leanified))
                                 (hdr + 18) (of_nat (length leanified)))
                             (hdr + 22) (of_nat (length leanified))) (p_write st2) leanified,
               p_write := p_write st2 + length leanified\<rparr>"
       "cd' = cd0\<lparr>compression_method := 0, crc32 := mz_crc32 E leanified,
               compressed_size := of_nat (length leanified),
               uncompressed_size := of_nat (length leanified)\<rparr>"
      by (simp_all add: True)
    show ?thesis
      using True v pw2 by (simp add: e rd_disj)
  next
    case False
    show ?thesis
    proof (cases "length out < unat oc")
      case True
      from d d' have e: "st' = st2\<lparr>buf := wrn (wr32 (wr32 (wr32 (buf st2) (hdr + 14) (mz_crc32 E leanified))
                                 (hdr + 18) (of_nat (length out)))
                             (hdr + 22) (of_nat (length leanified))) (p_write st2) out,
               p_write := p_write st2 + length out\<rparr>"
         "cd' = cd0\<lparr>crc32 := mz_crc32 E leanified, compressed_size := of_nat (length out),
               uncompressed_size := of_nat (length leanified)\<rparr>"
        by (simp_all add: True False)
      show ?thesis
        using True False v pw2 meth2 cdm by (simp add: e rd_disj)
    next
      case nc: False
      from d d' have e: "st' = st2\<lparr>buf := memmove (buf st2) (p_write st2) (payload_at m p) (unat oc),
               p_write := p_write st2 + unat oc\<rparr>" "cd' = cd0"
        by (simp_all add: nc False)
      show ?thesis
        using nc False v pw2 meth2 cdm us cr cs pl
        by (simp add: e rd16_memmove_disj rd32_memmove_disj)
    qed
  qed
qed

theorem C2_deflate_choice_witness:
  "entry_ok one_ctx (buf one_st) one_cd \<and> p_write one_st \<le> lfh one_ctx one_cd
   \<and> rd16 (buf one_st) (lfh one_ctx one_cd + 8) = 8 \<and> compression_method one_cd = 8
   \<and> rd16 (buf one_st) (lfh one_ctx one_cd + 6) AND 1 = 0 \<and> \<not> is_fast toyE
   \<and> declared_usize (buf one_st) (lfh one_ctx one_cd) one_cd = 5
   \<and> declared_size (buf one_st) (lfh one_ctx one_cd) one_cd = 6
   \<and> tinfl_decompress_mem_to_heap toyE (rdn (buf one_st) (payload_at (buf one_st) (lfh one_ctx one_cd)) 6)
       = Some [65, 65, 65, 65, 32]
   \<and> LeanifyFile toyE [65, 65, 65, 65, 32] [98] = [65, 65, 65, 65]
   \<and> ZopfliDeflate toyE [65, 65, 65, 65] = [4, 65]
   \<and> entry_verdict toyE one_ctx one_st one_cd = Written
   \<and> rdn (buf (entry_state toyE one_ctx one_st one_cd)) 31 2 = [4, 65]
   \<and> p_write (entry_state toyE one_ctx one_st one_cd) = 33
   \<and> rd16 (buf (entry_state toyE one_ctx one_st one_cd)) 8 = 8
   \<and> compression_method (entry_cd toyE one_ctx one_st one_cd) = 8
   \<and> rd32 (buf (entry_state toyE one_ctx one_st one_cd)) 18 = 2
   \<and> compressed_size (entry_cd toyE one_ctx one_st one_cd) = 2
   \<and> rd32 (buf (entry_state toyE one_ctx one_st one_cd)) 22 = 4
   \<and> uncompressed_size (entry_cd toyE one_ctx one_st one_cd) = 4"
proof -
  have h1: "entry_ok one_ctx (buf one_st) one_cd" by code_simp
  have h2: "p_write one_st \<le> lfh one_ctx one_cd" by code_simp
  have h3: "rd16 (buf one_st) (lfh one_ctx one_cd + 8) = 8" by code_simp
  have h4: "compression_method one_cd = 8" by code_simp
  have h5: "rd16 (buf one_st) (lfh one_ctx one_cd + 6) AND 1 = 0" by code_simp
  have h6: "\<not> is_fast toyE" by code_simp
  have us: "declared_usize (buf one_st) (lfh one_ctx one_cd) one_cd = 5" by code_simp
  have cs: "declared_size (buf one_st) (lfh one_ctx one_cd) one_cd = 6" by code_simp
  have h7: "declared_usize (buf one_st) (lfh one_ctx one_cd) one_cd \<noteq> 0" by (simp add: us)
  have inf: "tinfl_decompress_mem_to_heap toyE
      (rdn (buf one_st) (payload_at (buf one_st) (lfh one_ctx one_cd)) 6) = Some [65, 65, 65, 65, 32]"
    by code_simp
  have h8: "tinfl_decompress_mem_to_heap toyE
      (rdn (buf one_st) (payload_at (buf one_st) (lfh one_ctx one_cd))
         (unat (declared_size (buf one_st) (lfh one_ctx one_cd) one_cd))) = Some [65, 65, 65, 65, 32]"
    using inf by (simp add: cs)
  have h9: "length [65, 65, 65, 65, 32 :: byte] = unat (declared_usize (buf one_st) (lfh one_ctx one_cd) one_cd)"
    by (simp add: us)
  have h10: "declared_crc (buf one_st) (lfh one_ctx one_cd) one_cd = mz_crc32 toyE [65, 65, 65, 65, 32]"
    by code_simp
  have h11: "[65, 65, 65, 65] = LeanifyFile toyE [65, 65, 65, 65, 32]
      (rdn (buf one_st) (lfh one_ctx one_cd + 30) (unat (rd16 (buf one_st) (lfh one_ctx one_cd + 26))))"
    by code_simp
  have nm: "rdn (buf one_st) (lfh one_ctx one_cd + 30) (unat (rd16 (buf one_st) (lfh one_ctx one_cd + 26))) = [98]"
    by code_simp
  have h12: "length [65, 65, 65, 65 :: byte] \<le> length [65, 65, 65, 65, 32 :: byte]" by simp
  have h13: "[4, 65] = ZopfliDeflate toyE [65, 65, 65, 65]" by code_simp
  have a: "p_write one_st = 0" "rd16 (buf one_st) (lfh one_ctx one_cd + 26) = 1"
    by code_simp+
  note t = C2_deflate_choice[where E = toyE and c = one_ctx and st = one_st and cd = one_cd,
      OF h1 h2 h3 h4 h5 h6 h7 h8 h9 h10 h11 h12 h13]
  have c1: "\<not> (length [65, 65, 65, 65 :: byte] \<le> length [4, 65 :: byte]
      \<and> length [65, 65, 65, 65 :: byte] \<le> unat (declared_size (buf one_st) (lfh one_ctx one_cd) one_cd))"
    by simp
  have c2: "length [4, 65 :: byte] < unat (declared_size (buf one_st) (lfh one_ctx one_cd) one_cd)"
    by (simp add: cs)
  have l: "length [4, 65 :: byte] = 2" "length [65, 65, 65, 65 :: byte] = 4"
    by simp_all
  from t have "entry_verdict toyE one_ctx one_st one_cd = Written
   \<and> rdn (buf (entry_state toyE one_ctx one_st one_cd)) 31 2 = [4, 65]
   \<and> p_write (entry_state toyE one_ctx one_st one_cd) = 33
   \<and> rd16 (buf (entry_state toyE one_ctx one_st one_cd)) 8 = 8
   \<and> compression_method (entry_cd toyE one_ctx one_st one_cd) = 8
   \<and> rd32 (buf (entry_state toyE one_ctx one_st one_cd)) 18 = 2
   \<and> compressed_size (entry_cd toyE one_ctx one_st one_cd) = 2
   \<and> rd32 (buf (entry_state toyE one_ctx one_st one_cd)) 22 = 4
   \<and> uncompressed_size (entry_cd toyE one_ctx one_st one_cd) = 4"
    apply (simp only: c1 if_False)
    apply (simp only: c2 if_True)
    apply (simp only: l)
    apply (simp add: a)
    done
  with h1 h2 h3 h4 h5 h6 us cs inf h11[symmetric] h13[symmetric] nm show ?thesis
    by simp
qed

section \<open>The loop body as a whole\<close>

text \<open>What both branches of the dispatch have in common. \<open>st\<close> is the state they are
  entered with: the write cursor is past the header at \<open>hdr\<close>.\<close>

lemma rd8_wr16: "rd8 (wr16 m a w) i = (if a \<le> i \<and> i < a + 2 then le16 w ! (i - a) else rd8 m i)"
  by (simp add: wr16_def rd8_wrn)

lemma rd8_wr32: "rd8 (wr32 m a w) i = (if a \<le> i \<and> i < a + 4 then le32 w ! (i - a) else rd8 m i)"
  by (simp add: wr32_def rd8_wrn)

lemma store_or_move_p_write:
  assumes "store_or_move E st cd hdr p_read flg oc fn = (st', cd')"
  shows "p_write st' = p_write st + unat (rd32 (buf st') (hdr + 18))"
  using assms by (auto simp: store_or_move_def Let_def split: if_splits)

lemma store_or_move_cerr:
  assumes "store_or_move E st cd hdr p_read flg oc fn = (st', cd')"
  shows "cerr st' = cerr st"
  using assms by (auto simp: store_or_move_def Let_def split: if_splits)

lemma store_or_move_untouched:
  assumes "store_or_move E st cd hdr p_read flg oc fn = (st', cd')"
    and "hdr + 30 \<le> p_write st"
    and "a < hdr + 14 \<or> hdr + 26 \<le> a \<and> a < p_write st"
  shows "rd8 (buf st') a = rd8 (buf st) a"
  using assms
  by (auto simp: store_or_move_def Let_def rd8_wr32 rd8_wrn rd8_memmove split: if_splits)

lemma deflate_entry_p_write:
  assumes "deflate_entry E st cd hdr p_read oc fn = (st', cd')"
    and "rd32 (buf st) (hdr + 18) = oc" and "hdr + 30 \<le> p_write st"
  shows "p_write st' = p_write st + unat (rd32 (buf st') (hdr + 18))"
  using assms
  by (auto simp: deflate_entry_def Let_def rd32_memmove_disj split: if_splits option.splits)

lemma deflate_entry_untouched:
  assumes "deflate_entry E st cd hdr p_read oc fn = (st', cd')"
    and "hdr + 30 \<le> p_write st"
    and "a < hdr + 8 \<or> hdr + 26 \<le> a \<and> a < p_write st"
  shows "rd8 (buf st') a = rd8 (buf st) a"
  using assms
  by (auto simp: deflate_entry_def Let_def rd8_wr32 rd8_wr16 rd8_wrn rd8_memmove
           split: if_splits option.splits)

lemma other_fields_sel:
  assumes "other_fields a = other_fields b"
  shows "filename_len a = filename_len b \<and> flag a = flag b
     \<and> local_header_offset a = local_header_offset b
     \<and> extra_field_len a = extra_field_len b \<and> comment_len a = comment_len b"
proof -
  have "f (other_fields a) = f (other_fields b)" for f :: "CDHeader \<Rightarrow> 'x"
    by (simp add: assms)
  from this[of filename_len] this[of flag] this[of local_header_offset]
    this[of extra_field_len] this[of comment_len]
  show ?thesis
    by (simp add: other_fields_def)
qed

lemma store_or_move_other_fields:
  assumes "store_or_move E st cd hdr p_read flg oc fn = (st', cd')"
  shows "other_fields cd' = other_fields cd"
  using assms by (auto simp: store_or_move_def Let_def other_fields_def split: if_splits)

lemma deflate_entry_other_fields:
  assumes "deflate_entry E st cd hdr p_read oc fn = (st', cd')"
  shows "other_fields cd' = other_fields cd"
  using assms
  by (auto simp: deflate_entry_def Let_def other_fields_def split: if_splits option.splits)



text \<open>The payload the dispatch leaves is no longer than the one it found, and nothing is
  written past the place of the old one; for a stored entry this is the contract of
  the minifier.\<close>

lemma store_or_move_bounded:
  assumes "store_or_move E st cd hdr p_read flg oc fn = (st', cd')"
    and "rd32 (buf st) (hdr + 18) = oc" and "hdr + 30 \<le> p_write st"
    and "minifier_contract E"
  shows "unat (rd32 (buf st') (hdr + 18)) \<le> unat oc"
    and "p_write st + unat oc \<le> a \<Longrightarrow> rd8 (buf st') a = rd8 (buf st) a"
proof -
  let ?out = "LeanifyFile E (rdn (buf st) p_read (unat oc)) fn"
  have len: "length ?out \<le> unat oc"
    using assms(4) by (simp add: minifier_contract_def) (metis length_rdn)
  then have u: "unat (of_nat (length ?out) :: 32 word) = length ?out"
    using unat_lt32[of oc] by (simp add: unat_of_nat32)
  show "unat (rd32 (buf st') (hdr + 18)) \<le> unat oc"
    using assms(1-3) len u
    by (auto simp: store_or_move_def Let_def rd_disj rd32_memmove_disj split: if_splits)
  show "p_write st + unat oc \<le> a \<Longrightarrow> rd8 (buf st') a = rd8 (buf st) a"
    using assms(1-3) len
    by (auto simp: store_or_move_def Let_def rd8_wr32 rd8_wrn rd8_memmove split: if_splits)
qed

lemma deflate_entry_bounded:
  assumes "deflate_entry E st cd hdr p_read oc fn = (st', cd')"
    and "rd32 (buf st) (hdr + 18) = oc" and "hdr + 30 \<le> p_write st"
  shows "unat (rd32 (buf st') (hdr + 18)) \<le> unat oc"
    and "p_write st + unat oc \<le> a \<Longrightarrow> rd8 (buf st') a = rd8 (buf st) a"
proof -
  have w: "\<And>n. n < unat oc \<Longrightarrow> unat (of_nat n :: 32 word) = n"
    using unat_lt32[of oc] by (simp add: unat_of_nat32)
  show "unat (rd32 (buf st') (hdr + 18)) \<le> unat oc"
    using assms w
    by (auto simp: deflate_entry_def Let_def rd_disj rd32_memmove_disj word_le_nat_alt
             split: if_splits option.splits)
  show "p_write st + unat oc \<le> a \<Longrightarrow> rd8 (buf st') a = rd8 (buf st) a"
    using assms w
    by (auto simp: deflate_entry_def Let_def rd8_wr32 rd8_wr16 rd8_wrn rd8_memmove word_le_nat_alt
             split: if_splits option.splits)
qed

lemma local_entry_eof:
  assumes "lfh c cd + 30 \<le> p_end c" "rdn (buf st) (lfh c cd) 4 = header_magic"
    and "p_end c < lfh c cd + (30 + unat (rd16 (buf st) (lfh c cd + 26)))"
  shows "local_entry E c st cd =
           (Stopped, say Reached_EOF_in_local_header (warned st (rd16 (buf st) (lfh c cd + 26)) cd),
            renumbered c st cd)"
  using assms by (simp add: local_entry_def Let_def warned_def renumbered_def flip: lfh_def)

lemma local_entry_moved:
  assumes chk0: "lfh c cd + 30 \<le> p_end c" "rdn (buf st) (lfh c cd) 4 = header_magic"
    and chk1: "lfh c cd + (30 + unat (rd16 (buf st) (lfh c cd + 26))) \<le> p_end c"
    and mh: "move_header E (warned st (rd16 (buf st) (lfh c cd + 26)) cd) (renumbered c st cd)
               (lfh c cd) (rd16 (buf st) (lfh c cd + 26)) = (st1, p1, flg, oc, fn)"
  shows "local_entry E c st cd =
     (if p_end c < p1 + unat oc
      then (Stopped, say Compressed_size_too_large st1, renumbered c st cd)
      else case dispatch E (st1\<lparr>p_write := p_write st + (30 + unat (rd16 (buf st) (lfh c cd + 26)))\<rparr>)
                  (renumbered c st cd) (p_write st) (payload_at (buf st) (lfh c cd)) flg oc fn
           of (st', cd') \<Rightarrow> (Written, st', cd'))"
proof -
  note f = move_header_facts[OF mh, simplified]
  have pp: "p1 + (30 + unat (rd16 (buf st) (lfh c cd + 26))) = payload_at (buf st) (lfh c cd)"
    by (simp add: f payload_at_def)
  show ?thesis
  proof (cases "rd16 (buf st) (lfh c cd + 26) \<noteq> filename_len cd")
    case True
    with mh have mh1: "move_header E (say Filename_length_mismatch st)
               (cd\<lparr>local_header_offset := of_nat (p_write st - fp_w_base c)\<rparr>)
               (lfh c cd) (rd16 (buf st) (lfh c cd + 26)) = (st1, p1, flg, oc, fn)"
      by (simp add: warned_def renumbered_def)
    show ?thesis
      using chk0 chk1 True
      by (simp add: local_entry_def Let_def mh1 pp dispatch_def renumbered_def flip: lfh_def)
  next
    case False
    with mh have mh1: "move_header E st
               (cd\<lparr>local_header_offset := of_nat (p_write st - fp_w_base c)\<rparr>)
               (lfh c cd) (rd16 (buf st) (lfh c cd + 26)) = (st1, p1, flg, oc, fn)"
      by (simp add: warned_def renumbered_def)
    show ?thesis
      using chk0 chk1 False mh1 pp
      by (simp add: local_entry_def Let_def dispatch_def renumbered_def flip: lfh_def)
  qed
qed

text \<open>The four ways through the loop body.\<close>

lemma local_entry_cases [case_names skipped eof too_large written]:
  assumes "\<not> (lfh c cd + 30 \<le> p_end c \<and> rdn (buf st) (lfh c cd) 4 = header_magic) \<Longrightarrow>
      local_entry E c st cd = (Skipped, say (Invalid_local_header_offset (local_header_offset cd)) st, cd)
      \<Longrightarrow> P"
    and "local_entry E c st cd =
           (Stopped, say Reached_EOF_in_local_header (warned st (rd16 (buf st) (lfh c cd + 26)) cd),
            renumbered c st cd) \<Longrightarrow> P"
    and "\<And>st1 p1 flg oc fn.
      move_header E (warned st (rd16 (buf st) (lfh c cd + 26)) cd) (renumbered c st cd)
               (lfh c cd) (rd16 (buf st) (lfh c cd + 26)) = (st1, p1, flg, oc, fn) \<Longrightarrow>
      local_entry E c st cd = (Stopped, say Compressed_size_too_large st1, renumbered c st cd)
      \<Longrightarrow> P"
    and "\<And>st1 p1 flg oc fn st' cd'. entry_ok c (buf st) cd \<Longrightarrow>
      move_header E (warned st (rd16 (buf st) (lfh c cd + 26)) cd) (renumbered c st cd)
               (lfh c cd) (rd16 (buf st) (lfh c cd + 26)) = (st1, p1, flg, oc, fn) \<Longrightarrow>
      dispatch E (st1\<lparr>p_write := p_write st + (30 + unat (rd16 (buf st) (lfh c cd + 26)))\<rparr>)
                  (renumbered c st cd) (p_write st) (payload_at (buf st) (lfh c cd)) flg oc fn
        = (st', cd') \<Longrightarrow>
      local_entry E c st cd = (Written, st', cd') \<Longrightarrow> P"
  shows P
proof (cases "lfh c cd + 30 \<le> p_end c \<and> rdn (buf st) (lfh c cd) 4 = header_magic")
  case False
  then show ?thesis
    using assms(1) local_entry_Skipped by blast
next
  case chk0: True
  show ?thesis
  proof (cases "lfh c cd + (30 + unat (rd16 (buf st) (lfh c cd + 26))) \<le> p_end c")
    case False
    then show ?thesis
      using assms(2) local_entry_eof[of c cd st E] chk0 by simp
  next
    case chk1: True
    obtain st1 p1 flg oc fn where
      mh: "move_header E (warned st (rd16 (buf st) (lfh c cd + 26)) cd) (renumbered c st cd)
               (lfh c cd) (rd16 (buf st) (lfh c cd + 26)) = (st1, p1, flg, oc, fn)"
      using prod_cases5 by blast
    note le = local_entry_moved[OF conjunct1[OF chk0] conjunct2[OF chk0] chk1 mh]
    note f = move_header_facts[OF mh, simplified]
    show ?thesis
    proof (cases "p_end c < p1 + unat oc")
      case True
      then show ?thesis
        using assms(3)[OF mh] le by simp
    next
      case False
      have ok: "entry_ok c (buf st) cd"
        using chk0 chk1 False
        by (auto simp: entry_ok_def f declared_size_def renumbered_def simp flip: lfh_def
                 split: if_splits)
      obtain st' cd' where d: "dispatch E (st1\<lparr>p_write := p_write st + (30 + unat (rd16 (buf st) (lfh c cd + 26)))\<rparr>)
                  (renumbered c st cd) (p_write st) (payload_at (buf st) (lfh c cd)) flg oc fn
        = (st', cd')"
        by fastforce
      show ?thesis
        using assms(4)[OF ok mh d] le False d by simp
    qed
  qed
qed

lemma dispatch_p_write:
  assumes "dispatch E st cd hdr p_read flg oc fn = (st', cd')"
    and "rd32 (buf st) (hdr + 18) = oc" and "hdr + 30 \<le> p_write st"
  shows "p_write st' = p_write st + unat (rd32 (buf st') (hdr + 18))"
  using assms store_or_move_p_write deflate_entry_p_write
  by (auto simp: dispatch_def split: if_splits)

lemma dispatch_untouched:
  assumes "dispatch E st cd hdr p_read flg oc fn = (st', cd')"
    and "hdr + 30 \<le> p_write st"
    and "a < hdr + 8 \<or> hdr + 26 \<le> a \<and> a < p_write st"
  shows "rd8 (buf st') a = rd8 (buf st) a"
proof (cases "rd16 (buf st) (hdr + 8) \<noteq> 8 \<or> flg AND 1 \<noteq> 0 \<or> is_fast E")
  case True
  then have "store_or_move E st cd hdr p_read flg oc fn = (st', cd')"
    using assms(1) by (simp add: dispatch_def)
  from store_or_move_untouched[OF this assms(2)] assms(3) show ?thesis
    by auto
next
  case False
  then have "deflate_entry E st cd hdr p_read oc fn = (st', cd')"
    using assms(1) by (simp add: dispatch_def)
  from deflate_entry_untouched[OF this assms(2)] assms(3) show ?thesis
    by auto
qed

lemma dispatch_other_fields:
  assumes "dispatch E st cd hdr p_read flg oc fn = (st', cd')"
  shows "other_fields cd' = other_fields cd"
  using assms store_or_move_other_fields deflate_entry_other_fields
  by (auto simp: dispatch_def split: if_splits)


lemma dispatch_bounded:
  assumes "dispatch E st cd hdr p_read flg oc fn = (st', cd')"
    and "rd32 (buf st) (hdr + 18) = oc" and "hdr + 30 \<le> p_write st"
    and "minifier_contract E"
  shows "unat (rd32 (buf st') (hdr + 18)) \<le> unat oc"
    and "p_write st + unat oc \<le> a \<Longrightarrow> rd8 (buf st') a = rd8 (buf st) a"
proof -
  show "unat (rd32 (buf st') (hdr + 18)) \<le> unat oc"
    using assms store_or_move_bounded(1) deflate_entry_bounded(1)
    by (auto simp: dispatch_def split: if_splits)
  show "p_write st + unat oc \<le> a \<Longrightarrow> rd8 (buf st') a = rd8 (buf st) a"
    using assms store_or_move_bounded(2) deflate_entry_bounded(2)
    by (auto simp: dispatch_def split: if_splits)
qed

text \<open>What holds of every run of the loop body.\<close>

lemma same_outside_rd8: "same_outside m m' lo hi \<Longrightarrow> a < lo \<or> hi \<le> a \<Longrightarrow> rd8 m' a = rd8 m a"
  by (auto simp: same_outside_def)

lemma local_entry_p_write_mono:
  assumes "local_entry E c st cd = (v, st', cd')"
  shows "p_write st \<le> p_write st'"
proof (cases rule: local_entry_cases[of c cd st E])
  case skipped
  then show ?thesis using assms by auto
next
  case eof
  then show ?thesis using assms by auto
next
  case (too_large st1 p1 flg oc fn)
  then show ?thesis using assms move_header_facts(1)[OF too_large(1)] by auto
next
  case (written st1 p1 flg oc fn st2 cd2)
  note f = move_header_facts[OF written(2), simplified]
  have "p_write st2 = p_write st + (30 + unat (rd16 (buf st) (lfh c cd + 26)))
          + unat (rd32 (buf st2) (p_write st + 18))"
    using dispatch_p_write[OF written(3)] f(7) by simp
  then show ?thesis using assms written(4) by simp
qed

lemma local_entry_below:
  assumes "local_entry E c st cd = (v, st', cd')" and "a < p_write st"
  shows "rd8 (buf st') a = rd8 (buf st) a"
proof (cases rule: local_entry_cases[of c cd st E])
  case skipped
  then show ?thesis using assms by auto
next
  case eof
  then show ?thesis using assms by auto
next
  case (too_large st1 p1 flg oc fn)
  note f = move_header_facts[OF too_large(1), simplified]
  show ?thesis using assms too_large(2) same_outside_rd8[OF f(2)] by auto
next
  case (written st1 p1 flg oc fn st2 cd2)
  note f = move_header_facts[OF written(2), simplified]
  have "rd8 (buf st2) a = rd8 (buf st1) a"
    using dispatch_untouched[OF written(3), of a] assms(2) by simp
  then show ?thesis using assms written(4) same_outside_rd8[OF f(2)] by auto
qed

lemma local_entry_other_fields:
  assumes "local_entry E c st cd = (v, st', cd')"
  shows "other_fields cd' = other_fields cd \<or> other_fields cd' = other_fields (renumbered c st cd)"
proof (cases rule: local_entry_cases[of c cd st E])
  case skipped
  then show ?thesis using assms by auto
next
  case eof
  then show ?thesis using assms by auto
next
  case (too_large st1 p1 flg oc fn)
  then show ?thesis using assms by auto
next
  case (written st1 p1 flg oc fn st2 cd2)
  then show ?thesis using assms dispatch_other_fields[OF written(3)] by auto
qed

lemma local_entry_filename_len:
  assumes "local_entry E c st cd = (v, st', cd')"
  shows "filename_len cd' = filename_len cd"
proof -
  have "filename_len (renumbered c st cd) = filename_len cd"
    by (simp add: renumbered_def)
  then show ?thesis
    using local_entry_other_fields[OF assms] other_fields_sel[of cd' cd]
      other_fields_sel[of cd' "renumbered c st cd"] by auto
qed

lemma local_entry_bounded:
  assumes le: "local_entry E c st cd = (v, st', cd')" and mc: "minifier_contract E"
  shows "p_write st' \<le> p_write st + (30 + unat (rd16 (buf st) (lfh c cd + 26)))
            + unat (declared_size (buf st) (lfh c cd) cd)"
    and "p_write st + (30 + unat (rd16 (buf st) (lfh c cd + 26)))
            + unat (declared_size (buf st) (lfh c cd) cd) \<le> a \<Longrightarrow> rd8 (buf st') a = rd8 (buf st) a"
proof -
  let ?hi = "p_write st + (30 + unat (rd16 (buf st) (lfh c cd + 26)))
            + unat (declared_size (buf st) (lfh c cd) cd)"
  have "p_write st' \<le> ?hi \<and> (?hi \<le> a \<longrightarrow> rd8 (buf st') a = rd8 (buf st) a)"
  proof (cases rule: local_entry_cases[of c cd st E])
    case skipped
    then show ?thesis using le by auto
  next
    case eof
    then show ?thesis using le by auto
  next
    case (too_large st1 p1 flg oc fn)
    note f = move_header_facts[OF too_large(1), simplified]
    show ?thesis using le too_large(2) f(1) same_outside_rd8[OF f(2), of a] by auto
  next
    case (written st1 p1 flg oc fn st2 cd2)
    note f = move_header_facts[OF written(2), simplified]
    have oc: "oc = declared_size (buf st) (lfh c cd) cd"
      by (simp add: f declared_size_def renumbered_def)
    note b = dispatch_bounded[OF written(3) _ _ mc, simplified, OF f(7)]
    have "p_write st2 = p_write st + (30 + unat (rd16 (buf st) (lfh c cd + 26)))
          + unat (rd32 (buf st2) (p_write st + 18))"
      using dispatch_p_write[OF written(3)] f(7) by simp
    moreover have "?hi \<le> a \<Longrightarrow> rd8 (buf st2) a = rd8 (buf st) a"
      using b(2)[of a] same_outside_rd8[OF f(2), of a] by (simp add: oc)
    ultimately show ?thesis
      using le written(4) b(1) by (auto simp: oc)
  qed
  then show "p_write st' \<le> ?hi" and "?hi \<le> a \<Longrightarrow> rd8 (buf st') a = rd8 (buf st) a"
    by auto
qed

lemma compact_Written:
  assumes "local_entry E c st cd = (Written, st', cd')"
  shows "compact E c st (cd # rest) =
           (case compact E c st' rest of (st'', rest') \<Rightarrow> (st'', cd' # rest'))"
  using assms by simp

lemma entry_ok_Written:
  assumes ok: "entry_ok c (buf st) cd"
  obtains st1 p1 flg oc fn st' cd' where
    "move_header E (warned st (rd16 (buf st) (lfh c cd + 26)) cd) (renumbered c st cd)
               (lfh c cd) (rd16 (buf st) (lfh c cd + 26)) = (st1, p1, flg, oc, fn)"
    "dispatch E (st1\<lparr>p_write := p_write st + (30 + unat (rd16 (buf st) (lfh c cd + 26)))\<rparr>)
                  (renumbered c st cd) (p_write st) (payload_at (buf st) (lfh c cd)) flg oc fn
        = (st', cd')"
    "local_entry E c st cd = (Written, st', cd')"
proof -
  have c0: "lfh c cd + 30 \<le> p_end c" "rdn (buf st) (lfh c cd) 4 = header_magic"
    "lfh c cd + (30 + unat (rd16 (buf st) (lfh c cd + 26))) \<le> p_end c"
    using ok by (simp_all add: entry_ok_def lfh_def)
  obtain st1 p1 flg oc fn where
    mh: "move_header E (warned st (rd16 (buf st) (lfh c cd + 26)) cd) (renumbered c st cd)
               (lfh c cd) (rd16 (buf st) (lfh c cd + 26)) = (st1, p1, flg, oc, fn)"
    using prod_cases5 by blast
  note f = move_header_facts[OF mh, simplified]
  have fits: "\<not> p_end c < p1 + unat oc"
    using ok by (auto simp: entry_ok_def f declared_size_def renumbered_def split: if_splits)
  obtain st' cd' where
    d: "dispatch E (st1\<lparr>p_write := p_write st + (30 + unat (rd16 (buf st) (lfh c cd + 26)))\<rparr>)
                  (renumbered c st cd) (p_write st) (payload_at (buf st) (lfh c cd)) flg oc fn
        = (st', cd')"
    by fastforce
  have "local_entry E c st cd = (Written, st', cd')"
    using local_entry_moved[OF c0 mh] fits d by simp
  then show ?thesis
    using that[OF mh d] by blast
qed

text \<open>An entry that passes the checks reaches the dispatch with its header moved.\<close>

lemma entry_ok_dispatch:
  assumes ok: "entry_ok c (buf st) cd"
  obtains st2 st' cd' where
    "dispatch E st2 (renumbered c st cd) (p_write st) (payload_at (buf st) (lfh c cd))
       (rd16 (buf st) (lfh c cd + 6)) (declared_size (buf st) (lfh c cd) cd)
       (rdn (buf st) (lfh c cd + 30) (unat (rd16 (buf st) (lfh c cd + 26)))) = (st', cd')"
    "local_entry E c st cd = (Written, st', cd')"
    "p_write st2 = p_write st + (30 + unat (rd16 (buf st) (lfh c cd + 26)))"
    "same_outside (buf st) (buf st2) (p_write st) (p_write st + 30 + unat (rd16 (buf st) (lfh c cd + 26)))"
    "rd16 (buf st2) (p_write st + 6) = rd16 (buf st) (lfh c cd + 6) AND NOT 8"
    "rd16 (buf st2) (p_write st + 8) = rd16 (buf st) (lfh c cd + 8)"
    "rd32 (buf st2) (p_write st + 14) = declared_crc (buf st) (lfh c cd) cd"
    "rd32 (buf st2) (p_write st + 18) = declared_size (buf st) (lfh c cd) cd"
    "rd32 (buf st2) (p_write st + 22) = declared_usize (buf st) (lfh c cd) cd"
    "rd16 (buf st2) (p_write st + 28) = 0"
    "rdn (buf st2) (p_write st + 30) (unat (rd16 (buf st) (lfh c cd + 26)))
       = rdn (buf st) (lfh c cd + 30) (unat (rd16 (buf st) (lfh c cd + 26)))"
    "rdn (buf st2) (p_write st) 4 = header_magic"
proof -
  from ok obtain st1 p1 flg oc fn st' cd' where
    mh: "move_header E (warned st (rd16 (buf st) (lfh c cd + 26)) cd) (renumbered c st cd)
               (lfh c cd) (rd16 (buf st) (lfh c cd + 26)) = (st1, p1, flg, oc, fn)"
    and d: "dispatch E (st1\<lparr>p_write := p_write st + (30 + unat (rd16 (buf st) (lfh c cd + 26)))\<rparr>)
                  (renumbered c st cd) (p_write st) (payload_at (buf st) (lfh c cd)) flg oc fn
        = (st', cd')"
    and le: "local_entry E c st cd = (Written, st', cd')"
    by (rule entry_ok_Written)
  note f = move_header_facts[OF mh, simplified]
  let ?st2 = "st1\<lparr>p_write := p_write st + (30 + unat (rd16 (buf st) (lfh c cd + 26)))\<rparr>"
  have mg: "rdn (buf st) (lfh c cd) 4 = header_magic"
    using ok by (simp add: entry_ok_def)
  have oc: "oc = declared_size (buf st) (lfh c cd) cd"
    by (simp add: f declared_size_def renumbered_def)
  show ?thesis
  proof (rule that[of ?st2 st' cd'])
    show "dispatch E ?st2 (renumbered c st cd) (p_write st) (payload_at (buf st) (lfh c cd))
       (rd16 (buf st) (lfh c cd + 6)) (declared_size (buf st) (lfh c cd) cd)
       (rdn (buf st) (lfh c cd + 30) (unat (rd16 (buf st) (lfh c cd + 26)))) = (st', cd')"
      using d by (simp add: oc f(3) f(12))
    show "local_entry E c st cd = (Written, st', cd')" by (rule le)
    show "same_outside (buf st) (buf ?st2) (p_write st) (p_write st + 30 + unat (rd16 (buf st) (lfh c cd + 26)))"
      using f(2) by simp
    show "rd16 (buf ?st2) (p_write st + 6) = rd16 (buf st) (lfh c cd + 6) AND NOT 8"
      using f(4) by (simp add: f(3))
    show "rd32 (buf ?st2) (p_write st + 14) = declared_crc (buf st) (lfh c cd) cd"
      by (simp add: f declared_crc_def renumbered_def)
    show "rd32 (buf ?st2) (p_write st + 18) = declared_size (buf st) (lfh c cd) cd"
      using f(7) by (simp add: oc)
    show "rd32 (buf ?st2) (p_write st + 22) = declared_usize (buf st) (lfh c cd) cd"
      by (simp add: f declared_usize_def renumbered_def)
    show "rdn (buf ?st2) (p_write st + 30) (unat (rd16 (buf st) (lfh c cd + 26)))
       = rdn (buf st) (lfh c cd + 30) (unat (rd16 (buf st) (lfh c cd + 26)))"
      using f(13) by (simp add: f(12))
    show "rdn (buf ?st2) (p_write st) 4 = header_magic"
      using f(14) by (simp add: mg)
  qed (simp_all add: f)
qed

lemma payload_in_place:
  assumes "same_outside m m2 hdr (hdr + 30 + unat (rd16 m (p + 26)))" and "hdr \<le> p"
  shows "rdn m2 (payload_at m p) n = rdn m (payload_at m p) n"
  by (rule same_outside_rdn[OF assms(1)]) (use assms(2) in \<open>simp add: payload_at_def\<close>)

section \<open>A payload that does not inflate\<close>

theorem C6_claim_counterexample:
  "entry_ok one_ctx (buf one_st) (one_cd\<lparr>crc32 := 5\<rparr>)
   \<and> rd16 (buf one_st) (lfh one_ctx (one_cd\<lparr>crc32 := 5\<rparr>) + 8) = 8
   \<and> tinfl_decompress_mem_to_heap toyE (rdn (buf one_st) 33 6) = Some [65, 65, 65, 65, 32]
   \<and> mz_crc32 toyE [65, 65, 65, 65, 32] \<noteq> crc32 (one_cd\<lparr>crc32 := 5\<rparr>)
   \<and> rdn (buf one_st) 33 6 = [2, 65, 2, 65, 1, 32]
   \<and> rdn (buf (entry_state toyE one_ctx one_st (one_cd\<lparr>crc32 := 5\<rparr>))) 31 2 = [4, 65]
   \<and> rdn (buf (entry_state toyE one_ctx one_st (one_cd\<lparr>crc32 := 5\<rparr>))) 31 6 \<noteq> rdn (buf one_st) 33 6
   \<and> p_write (entry_state toyE one_ctx one_st (one_cd\<lparr>crc32 := 5\<rparr>)) = 33"
  by code_simp

text \<open>
  C6, as the code has it. A deflate entry whose payload does not inflate, or inflates
  to another length or CRC than the ones the body works with (the local header's, or
  the directory's when the header has the data descriptor bit), keeps its compressed
  bytes: they are moved to the write cursor as they are, the header keeps its method,
  CRC and sizes, the directory entry only gets its new offset, nothing outside of the
  entry's place in the output is written, and the loop goes on with the next entry.
\<close>

theorem C6_failed_inflate:
  fixes E c st cd rest
  defines "m \<equiv> buf st" and "p \<equiv> lfh c cd" and "hdr \<equiv> p_write st"
  defines "data \<equiv> p_write st + (30 + unat (rd16 (buf st) (lfh c cd + 26)))"
  defines "oc \<equiv> declared_size (buf st) (lfh c cd) cd"
  defines "st' \<equiv> entry_state E c st cd"
  assumes ok: "entry_ok c m cd" and ahead: "p_write st \<le> p"
    and deflate: "rd16 m (p + 8) = 8"
    and plain: "rd16 m (p + 6) AND 1 = 0" "\<not> is_fast E"
    and nonempty: "declared_usize m p cd \<noteq> 0"
    and failed: "\<not> inflated_ok E (rdn m (payload_at m p) (unat oc)) (declared_usize m p cd)
                    (declared_crc m p cd)"
  shows "entry_verdict E c st cd = Written
     \<and> entry_cd E c st cd = renumbered c st cd
     \<and> rdn (buf st') data (unat oc) = rdn m (payload_at m p) (unat oc)
     \<and> p_write st' = data + unat oc
     \<and> rd16 (buf st') (hdr + 8) = 8
     \<and> rd32 (buf st') (hdr + 14) = declared_crc m p cd
     \<and> rd32 (buf st') (hdr + 18) = oc
     \<and> rd32 (buf st') (hdr + 22) = declared_usize m p cd
     \<and> same_outside m (buf st') hdr (data + unat oc)
     \<and> compact E c st (cd # rest)
         = (case compact E c st' rest of (st'', rest') \<Rightarrow> (st'', renumbered c st cd # rest'))"
proof -
  from ok[unfolded m_def] obtain st2 st1 cd1 where
    d: "dispatch E st2 (renumbered c st cd) hdr (payload_at m p) (rd16 m (p + 6)) oc
          (rdn m (p + 30) (unat (rd16 m (p + 26)))) = (st1, cd1)"
    and le: "local_entry E c st cd = (Written, st1, cd1)"
    and pw: "p_write st2 = data"
    and so: "same_outside m (buf st2) hdr (hdr + 30 + unat (rd16 m (p + 26)))"
    and meth: "rd16 (buf st2) (hdr + 8) = rd16 m (p + 8)"
    and crc: "rd32 (buf st2) (hdr + 14) = declared_crc m p cd"
    and cs: "rd32 (buf st2) (hdr + 18) = oc"
    and us: "rd32 (buf st2) (hdr + 22) = declared_usize m p cd"
    unfolding m_def p_def hdr_def data_def oc_def by (rule entry_ok_dispatch[where E = E])
  have pl: "rdn (buf st2) (payload_at m p) (unat oc) = rdn m (payload_at m p) (unat oc)"
    using payload_in_place[OF so] ahead by (simp add: hdr_def)
  have "deflate_entry E st2 (renumbered c st cd) hdr (payload_at m p) oc
          (rdn m (p + 30) (unat (rd16 m (p + 26)))) = (st1, cd1)"
    using d deflate plain by (simp add: dispatch_def meth)
  moreover have "deflate_entry E st2 (renumbered c st cd) hdr (payload_at m p) oc
          (rdn m (p + 30) (unat (rd16 m (p + 26))))
      = (say Decompression_failed
              (st2\<lparr>buf := memmove (buf st2) (p_write st2) (payload_at m p) (unat oc),
                  p_write := p_write st2 + unat oc\<rparr>), renumbered c st cd)"
    by (rule deflate_entry_failed) (use nonempty failed in \<open>simp_all add: us crc pl\<close>)
  ultimately have e: "st1 = say Decompression_failed
              (st2\<lparr>buf := memmove (buf st2) data (payload_at m p) (unat oc),
                  p_write := data + unat oc\<rparr>)" "cd1 = renumbered c st cd"
    by (simp_all add: pw)
  have st': "st' = st1" and cd': "entry_cd E c st cd = cd1" and v: "entry_verdict E c st cd = Written"
    using le by (simp_all add: st'_def entry_state_def entry_cd_def entry_verdict_def)
  have d30: "hdr + 30 \<le> data"
    by (simp add: data_def hdr_def)
  have b1: "buf st1 = memmove (buf st2) data (payload_at m p) (unat oc)"
    "p_write st1 = data + unat oc"
    by (simp_all add: e)
  have out: "same_outside m (buf st1) hdr (data + unat oc)"
    unfolding b1 memmove_def
    by (rule same_outside_wrn_step[OF same_outside_mono[OF so]])
       (use d30 in \<open>simp_all add: data_def hdr_def m_def p_def\<close>)
  have cmp: "compact E c st (cd # rest)
         = (case compact E c st1 rest of (st'', rest') \<Rightarrow> (st'', renumbered c st cd # rest'))"
    using compact_Written[OF le] by (simp only: e(2))
  have rd: "rdn (buf st1) data (unat oc) = rdn m (payload_at m p) (unat oc)"
    "rd16 (buf st1) (hdr + 8) = 8" "rd32 (buf st1) (hdr + 14) = declared_crc m p cd"
    "rd32 (buf st1) (hdr + 18) = oc" "rd32 (buf st1) (hdr + 22) = declared_usize m p cd"
    using d30 meth deflate crc cs us pl
    by (simp_all add: b1 rd16_memmove_disj rd32_memmove_disj)
  show ?thesis
    unfolding st' cd'
    using v e(2) rd b1(2) out cmp by blast
qed

theorem C6_failed_inflate_witness:
  "entry_ok one_ctx (buf one_st) one_cd \<and> p_write one_st \<le> lfh one_ctx one_cd
   \<and> rd16 (buf one_st) (lfh one_ctx one_cd + 8) = 8
   \<and> rd16 (buf one_st) (lfh one_ctx one_cd + 6) AND 1 = 0 \<and> \<not> is_fast never_inflates
   \<and> declared_usize (buf one_st) (lfh one_ctx one_cd) one_cd \<noteq> 0
   \<and> \<not> inflated_ok never_inflates
         (rdn (buf one_st) (payload_at (buf one_st) (lfh one_ctx one_cd))
            (unat (declared_size (buf one_st) (lfh one_ctx one_cd) one_cd)))
         (declared_usize (buf one_st) (lfh one_ctx one_cd) one_cd)
         (declared_crc (buf one_st) (lfh one_ctx one_cd) one_cd)
   \<and> entry_verdict never_inflates one_ctx one_st one_cd = Written
   \<and> rdn (buf (entry_state never_inflates one_ctx one_st one_cd))
         (p_write one_st + (30 + unat (rd16 (buf one_st) (lfh one_ctx one_cd + 26))))
         (unat (declared_size (buf one_st) (lfh one_ctx one_cd) one_cd))
       = rdn (buf one_st) (payload_at (buf one_st) (lfh one_ctx one_cd))
           (unat (declared_size (buf one_st) (lfh one_ctx one_cd) one_cd))"
proof -
  have h1: "entry_ok one_ctx (buf one_st) one_cd" by code_simp
  have h2: "p_write one_st \<le> lfh one_ctx one_cd" by code_simp
  have h3: "rd16 (buf one_st) (lfh one_ctx one_cd + 8) = 8" by code_simp
  have h4: "rd16 (buf one_st) (lfh one_ctx one_cd + 6) AND 1 = 0" by code_simp
  have h5: "\<not> is_fast never_inflates" by code_simp
  have h6: "declared_usize (buf one_st) (lfh one_ctx one_cd) one_cd \<noteq> 0" by code_simp
  have h7: "\<not> inflated_ok never_inflates
         (rdn (buf one_st) (payload_at (buf one_st) (lfh one_ctx one_cd))
            (unat (declared_size (buf one_st) (lfh one_ctx one_cd) one_cd)))
         (declared_usize (buf one_st) (lfh one_ctx one_cd) one_cd)
         (declared_crc (buf one_st) (lfh one_ctx one_cd) one_cd)"
    by (simp add: inflated_ok_def never_inflates_def)
  from C6_failed_inflate[OF h1 h2 h3 h4 h5 h6 h7] h1 h2 h3 h4 h5 h6 h7 show ?thesis
    by blast
qed

section \<open>Fast mode\<close>

lemma move_header_env [simp]:
  "move_header (E\<lparr>tinfl_decompress_mem_to_heap := f, ZopfliDeflate := g\<rparr>) = move_header E"
  by (simp add: move_header_def fun_eq_iff)

lemma store_or_move_env [simp]:
  "store_or_move (E\<lparr>tinfl_decompress_mem_to_heap := f, ZopfliDeflate := g\<rparr>) = store_or_move E"
  by (simp add: store_or_move_def fun_eq_iff)

lemma dispatch_fast:
  assumes "is_fast E"
  shows "dispatch (E\<lparr>tinfl_decompress_mem_to_heap := f, ZopfliDeflate := g\<rparr>) = dispatch E"
  using assms by (simp add: dispatch_def fun_eq_iff)

lemma fast_never_inflates:
  assumes "is_fast E"
  shows "local_entry (E\<lparr>tinfl_decompress_mem_to_heap := f, ZopfliDeflate := g\<rparr>) c st cd
           = local_entry E c st cd"
proof (cases "lfh c cd + 30 \<le> p_end c \<and> rdn (buf st) (lfh c cd) 4 = header_magic")
  case False
  then show ?thesis
    by (simp only: local_entry_Skipped[OF False])
next
  case chk0: True
  show ?thesis
  proof (cases "lfh c cd + (30 + unat (rd16 (buf st) (lfh c cd + 26))) \<le> p_end c")
    case False
    then have "p_end c < lfh c cd + (30 + unat (rd16 (buf st) (lfh c cd + 26)))"
      by simp
    then show ?thesis
      by (simp only: local_entry_eof[OF conjunct1[OF chk0] conjunct2[OF chk0]])
  next
    case chk1: True
    obtain st1 p1 flg oc fn where
      mh: "move_header E (warned st (rd16 (buf st) (lfh c cd + 26)) cd) (renumbered c st cd)
               (lfh c cd) (rd16 (buf st) (lfh c cd + 26)) = (st1, p1, flg, oc, fn)"
      using prod_cases5 by blast
    then have mh': "move_header (E\<lparr>tinfl_decompress_mem_to_heap := f, ZopfliDeflate := g\<rparr>)
               (warned st (rd16 (buf st) (lfh c cd + 26)) cd) (renumbered c st cd)
               (lfh c cd) (rd16 (buf st) (lfh c cd + 26)) = (st1, p1, flg, oc, fn)"
      by simp
    show ?thesis
      by (simp only: local_entry_moved[OF conjunct1[OF chk0] conjunct2[OF chk0] chk1 mh]
            local_entry_moved[OF conjunct1[OF chk0] conjunct2[OF chk0] chk1 mh']
            dispatch_fast[OF assms])
  qed
qed

text \<open>
  C8. In fast mode no entry is inflated or recompressed: the loop body does the same
  whatever the decompressor and the compressor are. The payload of a deflate entry is
  moved to the write cursor as it is. A stored entry that is not encrypted, has a
  nonzero size and is within the depth limit is still given to the minifier, whose
  result is left at the write cursor, and the CRC and both sizes of the header and of
  the directory entry are set to that result.
\<close>

theorem C8_fast_mode:
  fixes E c st cd f g
  defines "m \<equiv> buf st" and "p \<equiv> lfh c cd" and "hdr \<equiv> p_write st"
  defines "data \<equiv> p_write st + (30 + unat (rd16 (buf st) (lfh c cd + 26)))"
  defines "oc \<equiv> declared_size (buf st) (lfh c cd) cd"
  defines "st' \<equiv> entry_state E c st cd" and "cd' \<equiv> entry_cd E c st cd"
  defines "leanified \<equiv> LeanifyFile E
     (rdn (buf st) (payload_at (buf st) (lfh c cd)) (unat (declared_size (buf st) (lfh c cd) cd)))
     (rdn (buf st) (lfh c cd + 30) (unat (rd16 (buf st) (lfh c cd + 26))))"
  assumes fast: "is_fast E" and ok: "entry_ok c m cd" and ahead: "p_write st \<le> p"
  shows "local_entry (E\<lparr>tinfl_decompress_mem_to_heap := f, ZopfliDeflate := g\<rparr>) c st cd
           = local_entry E c st cd
     \<and> entry_verdict E c st cd = Written
     \<and> (rd16 m (p + 8) = 8 \<longrightarrow>
           rdn (buf st') data (unat oc) = rdn m (payload_at m p) (unat oc)
         \<and> p_write st' = data + unat oc
         \<and> cd' = renumbered c st cd
         \<and> rd16 (buf st') (hdr + 8) = 8
         \<and> rd32 (buf st') (hdr + 14) = declared_crc m p cd
         \<and> rd32 (buf st') (hdr + 18) = oc
         \<and> rd32 (buf st') (hdr + 22) = declared_usize m p cd)
     \<and> (rd16 m (p + 8) = 0 \<and> rd16 m (p + 6) AND 1 = 0 \<and> oc \<noteq> 0 \<and> depth E + 1 \<le> max_depth E
          \<and> length leanified \<le> unat oc \<longrightarrow>
           rdn (buf st') data (length leanified) = leanified
         \<and> p_write st' = data + length leanified
         \<and> rd32 (buf st') (hdr + 14) = mz_crc32 E leanified \<and> crc32 cd' = mz_crc32 E leanified
         \<and> rd32 (buf st') (hdr + 18) = of_nat (length leanified)
         \<and> compressed_size cd' = of_nat (length leanified)
         \<and> rd32 (buf st') (hdr + 22) = of_nat (length leanified)
         \<and> uncompressed_size cd' = of_nat (length leanified))"
proof -
  from ok[unfolded m_def] obtain st2 st1 cd1 where
    d: "dispatch E st2 (renumbered c st cd) hdr (payload_at m p) (rd16 m (p + 6)) oc
          (rdn m (p + 30) (unat (rd16 m (p + 26)))) = (st1, cd1)"
    and le: "local_entry E c st cd = (Written, st1, cd1)"
    and pw: "p_write st2 = data"
    and so: "same_outside m (buf st2) hdr (hdr + 30 + unat (rd16 m (p + 26)))"
    and meth: "rd16 (buf st2) (hdr + 8) = rd16 m (p + 8)"
    and crc: "rd32 (buf st2) (hdr + 14) = declared_crc m p cd"
    and cs: "rd32 (buf st2) (hdr + 18) = oc"
    and us: "rd32 (buf st2) (hdr + 22) = declared_usize m p cd"
    unfolding m_def p_def hdr_def data_def oc_def by (rule entry_ok_dispatch[where E = E])
  have pl: "rdn (buf st2) (payload_at m p) (unat oc) = rdn m (payload_at m p) (unat oc)"
    using payload_in_place[OF so] ahead by (simp add: hdr_def)
  have s: "store_or_move E st2 (renumbered c st cd) hdr (payload_at m p) (rd16 m (p + 6)) oc
          (rdn m (p + 30) (unat (rd16 m (p + 26)))) = (st1, cd1)"
    using d fast by (simp add: dispatch_def)
  have st': "st' = st1" and cd': "cd' = cd1" and v: "entry_verdict E c st cd = Written"
    using le by (simp_all add: st'_def cd'_def entry_state_def entry_cd_def entry_verdict_def)
  have d30: "hdr + 30 \<le> data" "hdr + 30 \<le> p_write st2"
    by (simp_all add: data_def hdr_def pw)
  have a: "rdn (buf st1) data (unat oc) = rdn m (payload_at m p) (unat oc)
         \<and> p_write st1 = data + unat oc \<and> cd1 = renumbered c st cd
         \<and> rd16 (buf st1) (hdr + 8) = 8
         \<and> rd32 (buf st1) (hdr + 14) = declared_crc m p cd
         \<and> rd32 (buf st1) (hdr + 18) = oc
         \<and> rd32 (buf st1) (hdr + 22) = declared_usize m p cd"
    if m8: "rd16 m (p + 8) = 8"
  proof -
    have "store_or_move E st2 (renumbered c st cd) hdr (payload_at m p) (rd16 m (p + 6)) oc
          (rdn m (p + 30) (unat (rd16 m (p + 26))))
       = (st2\<lparr>buf := memmove (buf st2) (p_write st2) (payload_at m p) (unat oc),
               p_write := p_write st2 + unat oc\<rparr>, renumbered c st cd)"
      by (rule store_or_move_moved) (use m8 meth cs d30 in simp_all)
    with s have e: "st1 = st2\<lparr>buf := memmove (buf st2) data (payload_at m p) (unat oc),
               p_write := data + unat oc\<rparr>" "cd1 = renumbered c st cd"
      by (simp_all add: pw)
    show ?thesis
      using d30 meth m8 crc cs us pl
      by (simp add: e rd16_memmove_disj rd32_memmove_disj)
  qed
  have b: "rdn (buf st1) data (length leanified) = leanified
         \<and> p_write st1 = data + length leanified
         \<and> rd32 (buf st1) (hdr + 14) = mz_crc32 E leanified \<and> crc32 cd1 = mz_crc32 E leanified
         \<and> rd32 (buf st1) (hdr + 18) = of_nat (length leanified)
         \<and> compressed_size cd1 = of_nat (length leanified)
         \<and> rd32 (buf st1) (hdr + 22) = of_nat (length leanified)
         \<and> uncompressed_size cd1 = of_nat (length leanified)"
    if h: "rd16 m (p + 8) = 0" "rd16 m (p + 6) AND 1 = 0" "oc \<noteq> 0" "depth E + 1 \<le> max_depth E"
      "length leanified \<le> unat oc"
  proof -
    have len: "length leanified < 2 ^ 32"
      using h(5) unat_lt32[of oc] by simp
    have lf: "leanified = LeanifyFile E (rdn (buf st2) (payload_at m p) (unat oc))
        (rdn m (p + 30) (unat (rd16 m (p + 26))))"
      by (simp add: leanified_def pl) (simp add: m_def p_def oc_def)
    have "store_or_move E st2 (renumbered c st cd) hdr (payload_at m p) (rd16 m (p + 6)) oc
          (rdn m (p + 30) (unat (rd16 m (p + 26))))
       = (st2\<lparr>buf := wr32 (wr32 (wr32 (wrn (buf st2) (p_write st2) leanified) (hdr + 22)
                             (of_nat (length leanified)))
                          (hdr + 18) (of_nat (length leanified))) (hdr + 14) (mz_crc32 E leanified),
               p_write := p_write st2 + length leanified\<rparr>,
            (renumbered c st cd)\<lparr>uncompressed_size := of_nat (length leanified),
               compressed_size := of_nat (length leanified), crc32 := mz_crc32 E leanified\<rparr>)"
      by (rule store_or_move_leanified) (use h meth d30 lf len in simp_all)
    with s have e: "st1 = st2\<lparr>buf := wr32 (wr32 (wr32 (wrn (buf st2) data leanified) (hdr + 22)
                             (of_nat (length leanified)))
                          (hdr + 18) (of_nat (length leanified))) (hdr + 14) (mz_crc32 E leanified),
               p_write := data + length leanified\<rparr>"
      "cd1 = (renumbered c st cd)\<lparr>uncompressed_size := of_nat (length leanified),
               compressed_size := of_nat (length leanified), crc32 := mz_crc32 E leanified\<rparr>"
      by (simp_all add: pw)
    show ?thesis
      using d30 by (simp add: e rd_disj)
  qed
  show ?thesis
    unfolding st' cd' using fast_never_inflates[OF fast] v a b by blast
qed

theorem C8_fast_mode_witness:
  "is_fast fast_env
   \<and> entry_ok one_ctx (buf one_st) one_cd \<and> p_write one_st \<le> lfh one_ctx one_cd
   \<and> rd16 (buf one_st) (lfh one_ctx one_cd + 8) = 8
   \<and> rdn (buf (entry_state fast_env one_ctx one_st one_cd))
         (p_write one_st + (30 + unat (rd16 (buf one_st) (lfh one_ctx one_cd + 26))))
         (unat (declared_size (buf one_st) (lfh one_ctx one_cd) one_cd))
       = rdn (buf one_st) (payload_at (buf one_st) (lfh one_ctx one_cd))
             (unat (declared_size (buf one_st) (lfh one_ctx one_cd) one_cd))
   \<and> entry_ok stored_ctx (buf stored_st) stored_cd \<and> p_write stored_st \<le> lfh stored_ctx stored_cd
   \<and> rd16 (buf stored_st) (lfh stored_ctx stored_cd + 8) = 0
   \<and> rd16 (buf stored_st) (lfh stored_ctx stored_cd + 6) AND 1 = 0
   \<and> declared_size (buf stored_st) (lfh stored_ctx stored_cd) stored_cd = 3
   \<and> depth fast_env + 1 \<le> max_depth fast_env
   \<and> LeanifyFile fast_env
        (rdn (buf stored_st) (payload_at (buf stored_st) (lfh stored_ctx stored_cd))
           (unat (declared_size (buf stored_st) (lfh stored_ctx stored_cd) stored_cd)))
        (rdn (buf stored_st) (lfh stored_ctx stored_cd + 30)
           (unat (rd16 (buf stored_st) (lfh stored_ctx stored_cd + 26)))) = [65, 65]
   \<and> rdn (buf (entry_state fast_env stored_ctx stored_st stored_cd))
         (p_write stored_st + (30 + unat (rd16 (buf stored_st) (lfh stored_ctx stored_cd + 26)))) 2
       = [65, 65]
   \<and> crc32 (entry_cd fast_env stored_ctx stored_st stored_cd) = mz_crc32 fast_env [65, 65]
   \<and> compressed_size (entry_cd fast_env stored_ctx stored_st stored_cd) = 2
   \<and> uncompressed_size (entry_cd fast_env stored_ctx stored_st stored_cd) = 2"
proof -
  have f: "is_fast fast_env" by code_simp
  have h1: "entry_ok one_ctx (buf one_st) one_cd" by code_simp
  have h2: "p_write one_st \<le> lfh one_ctx one_cd" by code_simp
  have h3: "rd16 (buf one_st) (lfh one_ctx one_cd + 8) = 8" by code_simp
  have k1: "entry_ok stored_ctx (buf stored_st) stored_cd" by code_simp
  have k2: "p_write stored_st \<le> lfh stored_ctx stored_cd" by code_simp
  have k3: "rd16 (buf stored_st) (lfh stored_ctx stored_cd + 8) = 0" by code_simp
  have k4: "rd16 (buf stored_st) (lfh stored_ctx stored_cd + 6) AND 1 = 0" by code_simp
  have k5: "declared_size (buf stored_st) (lfh stored_ctx stored_cd) stored_cd = 3" by code_simp
  have k6: "depth fast_env + 1 \<le> max_depth fast_env" by code_simp
  have k7: "LeanifyFile fast_env
        (rdn (buf stored_st) (payload_at (buf stored_st) (lfh stored_ctx stored_cd))
           (unat (declared_size (buf stored_st) (lfh stored_ctx stored_cd) stored_cd)))
        (rdn (buf stored_st) (lfh stored_ctx stored_cd + 30)
           (unat (rd16 (buf stored_st) (lfh stored_ctx stored_cd + 26)))) = [65, 65]"
    by code_simp
  have l: "length [65, 65 :: byte] = 2" by simp
  note t1 = C8_fast_mode[OF f h1 h2, THEN conjunct2, THEN conjunct2, THEN conjunct1, rule_format, OF h3]
  note t2 = C8_fast_mode[OF f k1 k2, THEN conjunct2, THEN conjunct2, THEN conjunct2, rule_format,
      unfolded k7, unfolded k5 l]
  have "rdn (buf (entry_state fast_env stored_ctx stored_st stored_cd))
         (p_write stored_st + (30 + unat (rd16 (buf stored_st) (lfh stored_ctx stored_cd + 26)))) 2
       = [65, 65]
   \<and> crc32 (entry_cd fast_env stored_ctx stored_st stored_cd) = mz_crc32 fast_env [65, 65]
   \<and> compressed_size (entry_cd fast_env stored_ctx stored_st stored_cd) = 2
   \<and> uncompressed_size (entry_cd fast_env stored_ctx stored_st stored_cd) = 2"
    using t2 k3 k4 k6 by simp
  with t1 f h1 h2 h3 k1 k2 k3 k4 k5 k6 k7 show ?thesis
    by blast
qed

section \<open>The loop over the entries\<close>

lemma compact_Cons:
  "compact E c st (cd # rest) =
     (case local_entry E c st cd of
        (v, st', cd') \<Rightarrow>
          if v = Stopped then (st', cd' # rest)
          else (case compact E c st' rest of (st'', rest') \<Rightarrow> (st'', cd' # rest')))"
  by (simp split: prod.splits verdict.splits)

lemma compact_length: "length (snd (compact E c st cds)) = length cds"
proof (induction cds arbitrary: st)
  case Nil
  show ?case by simp
next
  case (Cons cd rest)
  obtain v st' cd' where le: "local_entry E c st cd = (v, st', cd')"
    using prod_cases3 by blast
  show ?case
    using Cons.IH[of st'] by (auto simp: compact_Cons le simp del: compact.simps split: prod.splits)
qed

lemma compact_p_write_mono: "p_write st \<le> p_write (fst (compact E c st cds))"
proof (induction cds arbitrary: st)
  case Nil
  show ?case by simp
next
  case (Cons cd rest)
  obtain v st' cd' where le: "local_entry E c st cd = (v, st', cd')"
    using prod_cases3 by blast
  show ?case
    using Cons.IH[of st'] local_entry_p_write_mono[OF le]
    by (auto simp: compact_Cons le simp del: compact.simps split: prod.splits)
qed

lemma compact_below:
  "a < p_write st \<Longrightarrow> rd8 (buf (fst (compact E c st cds))) a = rd8 (buf st) a"
proof (induction cds arbitrary: st)
  case Nil
  show ?case by simp
next
  case (Cons cd rest)
  obtain v st' cd' where le: "local_entry E c st cd = (v, st', cd')"
    using prod_cases3 by blast
  have "a < p_write st'"
    using Cons.prems local_entry_p_write_mono[OF le] by simp
  from Cons.IH[OF this] show ?case
    using local_entry_below[OF le Cons.prems]
    by (auto simp: compact_Cons le simp del: compact.simps split: prod.splits)
qed

lemma compact_filename_len:
  "map filename_len (snd (compact E c st cds)) = map filename_len cds"
proof (induction cds arbitrary: st)
  case Nil
  show ?case by simp
next
  case (Cons cd rest)
  obtain v st' cd' where le: "local_entry E c st cd = (v, st', cd')"
    using prod_cases3 by blast
  show ?case
    using Cons.IH[of st'] local_entry_filename_len[OF le]
    by (auto simp: compact_Cons le simp del: compact.simps split: prod.splits)
qed

section \<open>The directory that is written\<close>

lemma length_enc_CDHeader [simp]: "length (enc_CDHeader h) = 46"
  by (simp add: enc_CDHeader_def cd_magic_def)

lemma length_enc_EOCD [simp]: "length (enc_EOCD e) = 22"
  by (simp add: enc_EOCD_def eocd_magic_def)

lemma write_cd_headers_Cons:
  "write_cd_headers lo hi fwb m pw (cd # rest) =
     (if name_outside lo hi fwb cd then None
      else write_cd_headers lo hi fwb
             (memmove (wrn m pw (enc_CDHeader (cleared cd))) (pw + 46)
                (name_at fwb cd) (unat (filename_len cd)))
             (pw + record_size cd) rest)"
  by (simp add: Let_def cleared_def record_size_def name_outside_def name_at_def add.assoc)

lemma write_cd_headers_None:
  assumes "cd \<in> set cds" and "name_outside lo hi fwb cd"
  shows "write_cd_headers lo hi fwb m pw cds = None"
  using assms
proof (induction cds arbitrary: m pw)
  case Nil
  then show ?case by simp
next
  case (Cons x rest)
  show ?case
  proof (cases "name_outside lo hi fwb x")
    case True
    then show ?thesis
      by (simp only: write_cd_headers_Cons if_True)
  next
    case False
    with Cons.prems have "cd \<in> set rest"
      by auto
    from Cons.IH[OF this Cons.prems(2)] False show ?thesis
      by (simp only: write_cd_headers_Cons if_False)
  qed
qed

lemma write_cd_headers_inside:
  assumes "write_cd_headers lo hi fwb m pw cds = Some r" and "cd \<in> set cds"
  shows "\<not> name_outside lo hi fwb cd"
  using write_cd_headers_None[OF assms(2), of lo hi fwb m pw] assms(1) by auto

lemma write_cd_headers_pw:
  assumes "write_cd_headers lo hi fwb m pw cds = Some (m', pw')"
  shows "pw' = pw + sum_list (map record_size cds)"
  using assms
proof (induction cds arbitrary: m pw)
  case Nil
  then show ?case by simp
next
  case (Cons cd rest)
  from Cons.prems have
    "write_cd_headers lo hi fwb
       (memmove (wrn m pw (enc_CDHeader (cleared cd))) (pw + 46) (name_at fwb cd)
          (unat (filename_len cd)))
       (pw + record_size cd) rest = Some (m', pw')"
    by (simp add: write_cd_headers_Cons del: write_cd_headers.simps split: if_splits)
  from Cons.IH[OF this] show ?case
    by simp
qed

lemma write_cd_headers_below:
  assumes "write_cd_headers lo hi fwb m pw cds = Some (m', pw')" and "a < pw"
  shows "rd8 m' a = rd8 m a"
  using assms
proof (induction cds arbitrary: m pw)
  case Nil
  then show ?case by simp
next
  case (Cons cd rest)
  from Cons.prems(1) have w:
    "write_cd_headers lo hi fwb
       (memmove (wrn m pw (enc_CDHeader (cleared cd))) (pw + 46) (name_at fwb cd)
          (unat (filename_len cd)))
       (pw + record_size cd) rest = Some (m', pw')"
    by (simp add: write_cd_headers_Cons del: write_cd_headers.simps split: if_splits)
  have "a < pw + record_size cd"
    using Cons.prems(2) by simp
  from Cons.IH[OF w this] show ?case
    using Cons.prems(2) by (simp add: rd8_memmove rd8_wrn)
qed

lemma write_cd_headers_record:
  assumes "write_cd_headers lo hi fwb m pw cds = Some (m', pw')" and "i < length cds"
  shows "rdn m' (pw + sum_list (map record_size (take i cds))) 46 = enc_CDHeader (cleared (cds ! i))"
  using assms
proof (induction cds arbitrary: m pw i)
  case Nil
  then show ?case by simp
next
  case (Cons cd rest)
  let ?m1 = "wrn m pw (enc_CDHeader (cleared cd))"
  let ?m2 = "memmove ?m1 (pw + 46) (name_at fwb cd) (unat (filename_len cd))"
  from Cons.prems(1) have w:
    "write_cd_headers lo hi fwb ?m2 (pw + record_size cd) rest = Some (m', pw')"
    by (simp add: write_cd_headers_Cons del: write_cd_headers.simps split: if_splits)
  show ?case
  proof (cases i)
    case 0
    have "rdn m' pw 46 = rdn ?m2 pw 46"
      by (rule rdn_eqI) (simp add: write_cd_headers_below[OF w] record_size_def)
    also have "\<dots> = rdn ?m1 pw 46"
      by (simp add: rdn_memmove_disj)
    also have "\<dots> = enc_CDHeader (cleared cd)"
      using rdn_wrn_same[of m pw "enc_CDHeader (cleared cd)"] by simp
    finally show ?thesis
      using 0 by simp
  next
    case (Suc j)
    then have "j < length rest"
      using Cons.prems(2) by simp
    from Cons.IH[OF w this] show ?thesis
      using Suc by (simp add: add.assoc)
  qed
qed

lemma write_cd_headers_name:
  assumes "write_cd_headers lo hi fwb m pw cds = Some (m', pw')" and "i < length cds"
    and "name_at fwb (cds ! i) + unat (filename_len (cds ! i)) \<le> pw"
  shows "rdn m' (pw + sum_list (map record_size (take i cds)) + 46) (unat (filename_len (cds ! i)))
           = rdn m (name_at fwb (cds ! i)) (unat (filename_len (cds ! i)))"
  using assms
proof (induction cds arbitrary: m pw i)
  case Nil
  then show ?case by simp
next
  case (Cons cd rest)
  let ?m1 = "wrn m pw (enc_CDHeader (cleared cd))"
  let ?m2 = "memmove ?m1 (pw + 46) (name_at fwb cd) (unat (filename_len cd))"
  from Cons.prems(1) have w:
    "write_cd_headers lo hi fwb ?m2 (pw + record_size cd) rest = Some (m', pw')"
    by (simp add: write_cd_headers_Cons del: write_cd_headers.simps split: if_splits)
  show ?case
  proof (cases i)
    case 0
    let ?n = "unat (filename_len cd)"
    from Cons.prems(3) 0 have src: "name_at fwb cd + ?n \<le> pw"
      by simp
    have "rdn m' (pw + 46) ?n = rdn ?m2 (pw + 46) ?n"
      by (rule rdn_eqI) (simp add: write_cd_headers_below[OF w] record_size_def)
    also have "\<dots> = rdn ?m1 (name_at fwb cd) ?n"
      by (rule rdn_memmove_same)
    also have "\<dots> = rdn m (name_at fwb cd) ?n"
      using src by (intro rdn_wrn_disj) simp
    finally show ?thesis
      using 0 by simp
  next
    case (Suc j)
    then have j: "j < length rest"
      using Cons.prems(2) by simp
    let ?n = "unat (filename_len (rest ! j))"
    from Cons.prems(3) Suc have src: "name_at fwb (rest ! j) + ?n \<le> pw"
      by simp
    then have src': "name_at fwb (rest ! j) + ?n \<le> pw + record_size cd"
      by simp
    have "rdn ?m2 (name_at fwb (rest ! j)) ?n = rdn m (name_at fwb (rest ! j)) ?n"
      using src by (intro rdn_eqI) (simp add: rd8_memmove rd8_wrn)
    with Cons.IH[OF w j src'] show ?thesis
      using Suc by (simp add: add.assoc)
  qed
qed

section \<open>The records read back\<close>

lemma rd16_at:
  assumes "rdn m p n = bs" and "k + 2 \<le> n" and "take 2 (drop k bs) = le16 w"
  shows "rd16 m (p + k) = w"
proof (rule rd16_le16)
  show "rdn m (p + k) 2 = le16 w"
    using rdn_sub[OF assms(2), of m p] assms(1,3) by simp
qed

lemma rd32_at:
  assumes "rdn m p n = bs" and "k + 4 \<le> n" and "take 4 (drop k bs) = le32 w"
  shows "rd32 m (p + k) = w"
proof (rule rd32_le32)
  show "rdn m (p + k) 4 = le32 w"
    using rdn_sub[OF assms(2), of m p] assms(1,3) by simp
qed

lemma dec_EOCD_enc:
  assumes "rdn m p 22 = enc_EOCD e"
  shows "dec_EOCD m p = e"
proof -
  have "disk_num (dec_EOCD m p) = disk_num e"
    unfolding dec_EOCD_def EOCD.simps
    by (rule rd16_at[OF assms]) (simp_all add: enc_EOCD_def eocd_magic_def le32_def)
  moreover have "disk_cd_start (dec_EOCD m p) = disk_cd_start e"
    unfolding dec_EOCD_def EOCD.simps
    by (rule rd16_at[OF assms]) (simp_all add: enc_EOCD_def eocd_magic_def le32_def)
  moreover have "num_records (dec_EOCD m p) = num_records e"
    unfolding dec_EOCD_def EOCD.simps
    by (rule rd16_at[OF assms]) (simp_all add: enc_EOCD_def eocd_magic_def le32_def)
  moreover have "num_records_total (dec_EOCD m p) = num_records_total e"
    unfolding dec_EOCD_def EOCD.simps
    by (rule rd16_at[OF assms]) (simp_all add: enc_EOCD_def eocd_magic_def le32_def)
  moreover have "cd_size (dec_EOCD m p) = cd_size e"
    unfolding dec_EOCD_def EOCD.simps
    by (rule rd32_at[OF assms]) (simp_all add: enc_EOCD_def eocd_magic_def le16_def)
  moreover have "cd_offset (dec_EOCD m p) = cd_offset e"
    unfolding dec_EOCD_def EOCD.simps
    by (rule rd32_at[OF assms]) (simp_all add: enc_EOCD_def eocd_magic_def le16_def)
  moreover have "eocd_comment_len (dec_EOCD m p) = eocd_comment_len e"
    unfolding dec_EOCD_def EOCD.simps
    by (rule rd16_at[OF assms]) (simp_all add: enc_EOCD_def eocd_magic_def le32_def)
  ultimately show ?thesis
    by simp
qed


section \<open>The directory that is read\<close>

lemma read_cd_headers_Suc:
  "read_cd_headers m fp0 p_end0 zo i (Suc k) (hs, p_read, cd_end, base, out) =
     (if cd_end < p_read + 46
      then (hs, p_read, cd_end, base, out @ [CD_header_passed_end i])
      else if rdn m p_read 4 = cd_magic
      then read_cd_headers m fp0 p_end0 zo (i + 1) k
             (hs @ [dec_CDHeader m p_read],
              p_read + 46 + unat (filename_len (dec_CDHeader m p_read))
                + unat (extra_field_len (dec_CDHeader m p_read))
                + unat (comment_len (dec_CDHeader m p_read)),
              cd_end, base, out)
      else if i = 0 \<and> cd_end + zo \<le> p_end0 \<and> rdn m (p_read + zo) 4 = cd_magic
      then read_cd_headers m fp0 p_end0 zo (i + 1) k
             (hs @ [dec_CDHeader m (p_read + zo)],
              p_read + zo + 46 + unat (filename_len (dec_CDHeader m (p_read + zo)))
                + unat (extra_field_len (dec_CDHeader m (p_read + zo)))
                + unat (comment_len (dec_CDHeader m (p_read + zo))),
              cd_end + zo, zo, out)
      else (hs, p_read, cd_end, base, out @ [CD_header_magic_mismatch (p_read - fp0)]))"
  by (simp add: Let_def)

lemma read_cd_headers_base:
  assumes "read_cd_headers m fp0 p_end0 zo i k (hs, p_read, cd_end, base, out)
             = (hs', p_read', cd_end', base', out')"
  shows "base' = base \<or> base' = zo"
  using assms
proof (induction k arbitrary: i hs p_read cd_end base out)
  case 0
  then show ?case by simp
next
  case (Suc k)
  from Suc.prems show ?case
    by (auto simp only: read_cd_headers_Suc split: if_splits dest: Suc.IH)
qed

lemma read_cd_headers_length:
  assumes "read_cd_headers m fp0 p_end0 zo i k (hs, p_read, cd_end, base, out)
             = (hs', p_read', cd_end', base', out')"
  shows "length hs' \<le> length hs + k"
  using assms
proof (induction k arbitrary: i hs p_read cd_end base out)
  case 0
  then show ?case by simp
next
  case (Suc k)
  from Suc.prems show ?case
    by (auto simp only: read_cd_headers_Suc split: if_splits dest!: Suc.IH) simp_all
qed

lemma resolved_base_le:
  assumes "read_central_directory E m fp0 size0 eocd = (zo, base, cds, out)"
  obtains hs where "base = 0 \<or> base = zo" and "length hs \<le> unat (num_records eocd)"
    and "cds = std_sort E hs"
proof -
  obtain hs p_read cd_end b out0 where r:
    "read_cd_headers m fp0 (fp0 + size0)
       (search m fp0 (fp0 + unat (cd_offset eocd)) header_magic - fp0) 0 (unat (num_records eocd))
       ([], fp0 + unat (cd_offset eocd), fp0 + unat (cd_offset eocd) + unat (cd_size eocd), 0, [])
     = (hs, p_read, cd_end, b, out0)"
    using prod_cases5 by blast
  from assms have e: "zo = search m fp0 (fp0 + unat (cd_offset eocd)) header_magic - fp0"
    "base = b" "cds = std_sort E hs"
    by (simp_all add: read_central_directory_def Let_def r)
  show thesis
  proof (rule that[of hs])
    show "base = 0 \<or> base = zo"
      using read_cd_headers_base[OF r] by (simp add: e)
    show "length hs \<le> unat (num_records eocd)"
      using read_cd_headers_length[OF r] by simp
    show "cds = std_sort E hs"
      by (rule e(3))
  qed
qed

lemma sort_contract_length:
  assumes "sort_contract E"
  shows "length (std_sort E xs) = length xs"
proof -
  from assms have c: "count_list (std_sort E xs) x = count_list xs x" for x
    by (simp add: sort_contract_def)
  have s: "set (std_sort E xs) = set xs"
    using c by (metis count_list_0_iff subsetI subset_antisym)
  have "length (std_sort E xs) = sum (count_list (std_sort E xs)) (set xs)"
    using sum_count_set[of "std_sort E xs" "set xs"] by (simp add: s)
  also have "\<dots> = sum (count_list xs) (set xs)"
    by (simp add: c)
  also have "\<dots> = length xs"
    using sum_count_set[of xs "set xs"] by simp
  finally show ?thesis .
qed

lemma count_list_insort_key:
  "count_list (insort_key f a xs) x = count_list (a # xs) x"
  by (induction xs) auto

lemma count_list_sort_key: "count_list (sort_key f xs) x = count_list xs x"
  by (induction xs) (auto simp: count_list_insort_key)

lemma toyE_sort_contract: "sort_contract toyE"
  by (simp add: sort_contract_def toyE_def count_list_sort_key)

section \<open>The archive that is written\<close>

lemma Leanify_accepted:
  assumes "accepted m fp0 size0"
  shows "Leanify E m fp0 size0 size_leanified
           = rewrite E m fp0 size0 size_leanified (found_eocd m fp0 size0)"
  using assms
  by (auto simp: Leanify_def accepted_def found_eocd_def found_eocd_at_def Let_def)

lemma compacted_facts:
  fixes E m fp0 size0 sl zo base cds out
  defines "st \<equiv> fst (compacted E m fp0 size0 sl zo base cds out)"
  defines "cds' \<equiv> snd (compacted E m fp0 size0 sl zo base cds out)"
  shows "fp0 - sl + zo \<le> p_write st"
    and "length cds' = length cds" and "map filename_len cds' = map filename_len cds"
    and "map record_size cds' = map record_size cds"
proof -
  show "fp0 - sl + zo \<le> p_write st"
    unfolding st_def compacted_def
    using compact_p_write_mono[of "\<lparr> buf = memmove m (fp0 - sl) fp0 zo, p_write = fp0 - sl + zo, cerr = out \<rparr>" E
        "\<lparr> fp = fp0, p_end = fp0 + size0, base_offset = base, fp_w_base = fp0 - sl + base \<rparr>" cds]
    by simp
  show len: "length cds' = length cds"
    unfolding cds'_def compacted_def by (rule compact_length)
  show fn: "map filename_len cds' = map filename_len cds"
    unfolding cds'_def compacted_def by (rule compact_filename_len)
  show "map record_size cds' = map record_size cds"
    using len fn by (simp add: record_size_def list_eq_iff_nth_eq)
qed

lemma emit_Some:
  fixes E m fp0 size0 sl eocd zo base cds out
  defines "st \<equiv> fst (compacted E m fp0 size0 sl zo base cds out)"
  defines "cds' \<equiv> snd (compacted E m fp0 size0 sl zo base cds out)"
  defines "fwb \<equiv> fp0 - sl + base"
  defines "pw \<equiv> p_write st + sum_list (map record_size cds)"
  defines "e \<equiv> eocd\<lparr>cd_offset := of_nat (p_write st - fwb),
                     num_records := of_nat (length cds), num_records_total := of_nat (length cds),
                     cd_size := of_nat (pw - fwb - unat (of_nat (p_write st - fwb) :: 32 word)),
                     eocd_comment_len := 0\<rparr>"
  assumes "emit E m fp0 size0 sl eocd zo base cds out = Some z"
  obtains M where
    "write_cd_headers (fp0 - sl) (fp0 + size0) fwb (buf st) (p_write st) cds' = Some (M, pw)"
    and "z = \<lparr> z_buf = wrn M pw (enc_EOCD e), z_fp = fp0 - sl, z_size = pw + 22 - (fp0 - sl),
                z_cerr = cerr st \<rparr>"
proof -
  obtain st0 cds0 where c: "compacted E m fp0 size0 sl zo base cds out = (st0, cds0)"
    by fastforce
  then have st: "st = st0" and cds': "cds' = cds0"
    by (simp_all add: st_def cds'_def)
  note cf = compacted_facts[where E = E and m = m and ?fp0.0 = fp0 and ?size0.0 = size0 and sl = sl
      and zo = zo and base = base and cds = cds and out = out, folded st_def cds'_def]
  from assms(6) c obtain M pw3 where
    w: "write_cd_headers (fp0 - sl) (fp0 + size0) fwb (buf st0) (p_write st0) cds0 = Some (M, pw3)"
    by (auto simp: emit_def Let_def compacted_def fwb_def split: option.splits)
  have pw3: "pw3 = pw"
    using write_cd_headers_pw[OF w] cf(4) by (simp add: pw_def st cds')
  have zz: "z = \<lparr> z_buf = wrn M pw (enc_EOCD e), z_fp = fp0 - sl, z_size = pw + 22 - (fp0 - sl),
                  z_cerr = cerr st \<rparr>"
    using assms(6) c w cf(2)
    by (simp add: emit_def Let_def compacted_def fwb_def pw3 e_def st cds')
  show thesis
    using that[of M] w zz by (simp add: st cds' pw3)
qed

lemma emit_None:
  assumes "cd \<in> set (snd (compacted E m fp0 size0 sl zo base cds out))"
    and "name_outside (fp0 - sl) (fp0 + size0) (fp0 - sl + base) cd"
  shows "emit E m fp0 size0 sl eocd zo base cds out = None"
proof -
  obtain st0 cds0 where c: "compacted E m fp0 size0 sl zo base cds out = (st0, cds0)"
    by fastforce
  with assms(1) have "cd \<in> set cds0"
    by simp
  from write_cd_headers_None[OF this assms(2)] c show ?thesis
    by (simp add: emit_def Let_def compacted_def)
qed

section \<open>The layout of the output\<close>

lemma sum_list_take_nth_le:
  fixes f :: "'a \<Rightarrow> nat"
  assumes "i < length xs"
  shows "sum_list (map f (take i xs)) + f (xs ! i) \<le> sum_list (map f xs)"
proof -
  have "sum_list (map f xs) = sum_list (map f (take i xs @ xs ! i # drop (Suc i) xs))"
    using id_take_nth_drop[OF assms] by simp
  then show ?thesis
    by simp
qed

lemma Leanify_layout:
  fixes E m fp0 size0 sl z
  defines "base \<equiv> resolved_base E m fp0 size0"
  defines "fin \<equiv> final_entries E m fp0 size0 sl"
  defines "S \<equiv> sum_list (map record_size (final_entries E m fp0 size0 sl))"
  assumes acc: "accepted m fp0 size0" and sc: "sort_contract E"
    and ret: "Leanify E m fp0 size0 sl = Some z" and small: "z_size z < 2 ^ 32"
  obtains M0 M pw e where
    "z_fp z = fp0 - sl" and "z_size z = pw + S + 22 - (fp0 - sl)"
    and "fp0 - sl + base \<le> pw"
    and "write_cd_headers (fp0 - sl) (fp0 + size0) (fp0 - sl + base) M0 pw fin = Some (M, pw + S)"
    and "z_buf z = wrn M (pw + S) (enc_EOCD e)"
    and "unat (cd_offset e) = pw - (fp0 - sl + base)"
    and "unat (cd_size e) = S"
    and "unat (num_records e) = length fin" and "num_records_total e = num_records e"
    and "eocd_comment_len e = 0"
proof -
  let ?eocd = "found_eocd m fp0 size0"
  obtain zo b cds out where r: "read_central_directory E m fp0 size0 ?eocd = (zo, b, cds, out)"
    using prod_cases4 by blast
  have b: "b = base"
    by (simp add: base_def resolved_base_def r)
  have zz: "emit E m fp0 size0 sl ?eocd zo base cds out = Some z"
    using ret by (simp add: Leanify_accepted[OF acc] rewrite_def r b)
  have fin: "fin = snd (compacted E m fp0 size0 sl zo base cds out)"
    by (simp add: fin_def final_entries_def r b)
  define st where "st = fst (compacted E m fp0 size0 sl zo base cds out)"
  define pw where "pw = p_write st"
  note cf = compacted_facts[where E = E and m = m and ?fp0.0 = fp0 and ?size0.0 = size0 and sl = sl
      and zo = zo and base = base and cds = cds and out = out, folded st_def fin, folded pw_def]
  have S: "sum_list (map record_size cds) = S"
    using cf(4) by (simp add: S_def fin_def[symmetric])
  define D where "D = pw - (fp0 - sl + base)"
  define e where "e = ?eocd\<lparr>cd_offset := of_nat D,
                     num_records := of_nat (length cds), num_records_total := of_nat (length cds),
                     cd_size := of_nat (pw + S - (fp0 - sl + base) - unat (of_nat D :: 32 word)),
                     eocd_comment_len := 0\<rparr>"
  from zz obtain M where
    w: "write_cd_headers (fp0 - sl) (fp0 + size0) (fp0 - sl + base) (buf st) pw fin = Some (M, pw + S)"
    and z: "z = \<lparr> z_buf = wrn M (pw + S) (enc_EOCD e), z_fp = fp0 - sl,
                  z_size = pw + S + 22 - (fp0 - sl), z_cerr = cerr st \<rparr>"
    by (rule emit_Some) (simp add: st_def[symmetric] fin[symmetric] pw_def[symmetric] S D_def e_def)
  from r obtain hs where bz: "base = 0 \<or> base = zo" and len: "length hs \<le> unat (num_records ?eocd)"
    and srt: "cds = std_sort E hs"
    by (rule resolved_base_le) (simp add: b)
  from cf(1) bz have lo: "fp0 - sl + base \<le> pw"
    by auto
  from small z lo have lt: "pw + S - (fp0 - sl + base) < 2 ^ 32"
    by simp
  then have "D < 2 ^ 32"
    by (simp add: D_def)
  then have co: "unat (of_nat D :: 32 word) = D"
    by (rule unat_of_nat32)
  have dd: "pw + S - (fp0 - sl + base) - D = S"
    using lo by (simp add: D_def)
  have "S < 2 ^ 32"
    using lt lo by simp
  then have s32: "unat (of_nat S :: 32 word) = S"
    by (rule unat_of_nat32)
  have "cd_size e = of_nat (pw + S - (fp0 - sl + base) - unat (of_nat D :: 32 word))"
    unfolding e_def by simp
  also have "\<dots> = of_nat S"
    by (simp only: co dd)
  finally have cs: "unat (cd_size e) = S"
    by (simp only: s32)
  have "length cds = length hs"
    unfolding srt by (rule sort_contract_length[OF sc])
  then have "length cds < 2 ^ 16"
    using len unsigned_less[of "num_records ?eocd", where 'a = nat] by simp
  then have nr: "unat (num_records e) = length fin"
    by (simp add: e_def unat_of_nat take_bit_nat_eq_self cf(2))
  show thesis
  proof (rule that[of pw "buf st" M e])
    show "z_fp z = fp0 - sl" by (simp add: z)
    show "z_size z = pw + S + 22 - (fp0 - sl)" by (simp add: z)
    show "fp0 - sl + base \<le> pw" by (rule lo)
    show "write_cd_headers (fp0 - sl) (fp0 + size0) (fp0 - sl + base) (buf st) pw fin = Some (M, pw + S)"
      by (rule w)
    show "z_buf z = wrn M (pw + S) (enc_EOCD e)" by (simp add: z)
    show "unat (cd_offset e) = pw - (fp0 - sl + base)"
      using co by (simp add: e_def D_def)
    show "unat (cd_size e) = S" by (rule cs)
    show "unat (num_records e) = length fin" by (rule nr)
    show "num_records_total e = num_records e" by (simp add: e_def)
    show "eocd_comment_len e = 0" by (simp add: e_def)
  qed
qed

lemma eocd_out_layout:
  assumes "z_buf z = wrn M (pw + S) (enc_EOCD e)" and "z_size z = pw + S + 22 - z_fp z"
    and "z_fp z \<le> pw"
  shows "eocd_out z = e" and "rdn (z_buf z) (z_fp z + z_size z - 22) 22 = enc_EOCD e"
proof -
  have p: "z_fp z + z_size z - 22 = pw + S"
    using assms(2,3) by simp
  show r: "rdn (z_buf z) (z_fp z + z_size z - 22) 22 = enc_EOCD e"
    unfolding p assms(1) using rdn_wrn_same[where bs = "enc_EOCD e" and m = M and a = "pw + S"]
    by simp
  show "eocd_out z = e"
    unfolding eocd_out_def by (rule dec_EOCD_enc[OF r])
qed

lemma p_searchstart_small: "fp0 + size0 \<le> 65539 \<Longrightarrow> p_searchstart fp0 size0 = fp0"
  by (simp add: p_searchstart_def)

text \<open>
  C10. When the four checks pass and the archive is rewritten, the output describes
  itself. Its last 22 bytes are the end record, whose comment length is 0, and its
  length is the base offset plus the directory offset and the directory size of that
  record plus 22. The directory lies where the two fields say: the record count is
  the number of the entries the loop leaves, the directory size is the sum of their
  record sizes, and the record \<open>i\<close> starts that sum of the records before it behind
  the directory start, with the 46 bytes of the entry, its data descriptor bit, extra
  field length and comment length set to 0. Where the name that the offset of the
  entry points to lies before the directory, the name of the record is that name.
  The two fields are 32 bits wide, so this is for an output shorter than \<open>2 ^ 32\<close>
  bytes; the function must have returned, that is, no name was read outside the
  buffer.
\<close>

theorem C10_self_describing:
  fixes E m fp0 size0 size_leanified z
  defines "fin \<equiv> final_entries E m fp0 size0 size_leanified"
  defines "base \<equiv> resolved_base E m fp0 size0"
  defines "start \<equiv> cd_start_out z (resolved_base E m fp0 size0)"
  assumes "accepted m fp0 size0" and "sort_contract E"
    and "Leanify E m fp0 size0 size_leanified = Some z" and "z_size z < 2 ^ 32"
  shows "rdn (z_buf z) (z_fp z + z_size z - 22) 22 = enc_EOCD (eocd_out z)
     \<and> eocd_comment_len (eocd_out z) = 0
     \<and> z_size z = base + unat (cd_offset (eocd_out z)) + unat (cd_size (eocd_out z)) + 22
     \<and> unat (num_records (eocd_out z)) = length fin
     \<and> num_records_total (eocd_out z) = num_records (eocd_out z)
     \<and> unat (cd_size (eocd_out z)) = sum_list (map record_size fin)
     \<and> (\<forall>i < length fin.
           rdn (z_buf z) (record_at start fin i) 46 = enc_CDHeader (cleared (fin ! i))
         \<and> (name_at (z_fp z + base) (fin ! i) + unat (filename_len (fin ! i)) \<le> start \<longrightarrow>
               rdn (z_buf z) (record_at start fin i + 46) (unat (filename_len (fin ! i)))
                 = rdn (z_buf z) (name_at (z_fp z + base) (fin ! i))
                     (unat (filename_len (fin ! i)))))"
proof -
  let ?S = "sum_list (map record_size fin)"
  from assms(4-7) obtain M0 M pw e where
    fp: "z_fp z = fp0 - size_leanified"
    and sz: "z_size z = pw + ?S + 22 - (fp0 - size_leanified)"
    and lo: "fp0 - size_leanified + base \<le> pw"
    and w: "write_cd_headers (fp0 - size_leanified) (fp0 + size0) (fp0 - size_leanified + base)
              M0 pw fin = Some (M, pw + ?S)"
    and zb: "z_buf z = wrn M (pw + ?S) (enc_EOCD e)"
    and co: "unat (cd_offset e) = pw - (fp0 - size_leanified + base)"
    and cs: "unat (cd_size e) = ?S"
    and nr: "unat (num_records e) = length fin" and nt: "num_records_total e = num_records e"
    and cl: "eocd_comment_len e = 0"
    unfolding fin_def base_def by (rule Leanify_layout) blast
  have le: "z_fp z \<le> pw"
    using lo fp by simp
  note eo = eocd_out_layout[OF zb sz[folded fp] le]
  have start: "start = pw"
    using lo by (simp add: start_def cd_start_out_def eo(1) co fp base_def)
  have size: "z_size z = base + unat (cd_offset e) + unat (cd_size e) + 22"
    using sz lo by (simp add: co cs)
  have below: "rdn (z_buf z) a n = rdn M a n" if "a + n \<le> pw + ?S" for a n
    unfolding zb using that by (intro rdn_wrn_disj) simp
  have rec: "rdn (z_buf z) (record_at pw fin i) 46 = enc_CDHeader (cleared (fin ! i))
      \<and> (name_at (z_fp z + base) (fin ! i) + unat (filename_len (fin ! i)) \<le> pw \<longrightarrow>
            rdn (z_buf z) (record_at pw fin i + 46) (unat (filename_len (fin ! i)))
              = rdn (z_buf z) (name_at (z_fp z + base) (fin ! i)) (unat (filename_len (fin ! i))))"
    if i: "i < length fin" for i
  proof -
    let ?n = "unat (filename_len (fin ! i))"
    have "sum_list (map record_size (take i fin)) + record_size (fin ! i) \<le> ?S"
      by (rule sum_list_take_nth_le[OF i])
    then have fit: "record_at pw fin i + 46 + ?n \<le> pw + ?S"
      by (simp add: record_at_def record_size_def)
    have "rdn (z_buf z) (record_at pw fin i) 46 = rdn M (record_at pw fin i) 46"
      using fit by (intro below) simp
    also have "\<dots> = enc_CDHeader (cleared (fin ! i))"
      unfolding record_at_def by (rule write_cd_headers_record[OF w i])
    finally have a: "rdn (z_buf z) (record_at pw fin i) 46 = enc_CDHeader (cleared (fin ! i))" .
    have b: "rdn (z_buf z) (record_at pw fin i + 46) ?n
               = rdn (z_buf z) (name_at (z_fp z + base) (fin ! i)) ?n"
      if src: "name_at (z_fp z + base) (fin ! i) + ?n \<le> pw"
    proof -
      from src have src': "name_at (fp0 - size_leanified + base) (fin ! i) + ?n \<le> pw"
        by (simp add: fp)
      have "rdn (z_buf z) (record_at pw fin i + 46) ?n = rdn M (record_at pw fin i + 46) ?n"
        using fit by (intro below) simp
      also have "\<dots> = rdn M0 (name_at (fp0 - size_leanified + base) (fin ! i)) ?n"
        unfolding record_at_def by (rule write_cd_headers_name[OF w i src'])
      also have "\<dots> = rdn M (name_at (fp0 - size_leanified + base) (fin ! i)) ?n"
        using src' by (intro rdn_eqI) (simp add: write_cd_headers_below[OF w])
      also have "\<dots> = rdn (z_buf z) (name_at (fp0 - size_leanified + base) (fin ! i)) ?n"
        using src' by (intro below[symmetric]) simp
      finally show ?thesis
        by (simp add: fp)
    qed
    from a b show ?thesis
      by blast
  qed
  show ?thesis
    unfolding eo(1) start using eo(2) cl size nr nt cs rec by blast
qed

theorem C10_self_describing_witness:
  "accepted stored_zip 0 103 \<and> sort_contract toyE
   \<and> Leanify toyE stored_zip 0 103 0 = Some stored_zip_out \<and> z_size stored_zip_out < 2 ^ 32
   \<and> 0 < length (final_entries toyE stored_zip 0 103 0)
   \<and> name_at (z_fp stored_zip_out + resolved_base toyE stored_zip 0 103)
         (final_entries toyE stored_zip 0 103 0 ! 0)
       + unat (filename_len (final_entries toyE stored_zip 0 103 0 ! 0))
       \<le> cd_start_out stored_zip_out (resolved_base toyE stored_zip 0 103)
   \<and> z_size stored_zip_out
       = resolved_base toyE stored_zip 0 103 + unat (cd_offset (eocd_out stored_zip_out))
         + unat (cd_size (eocd_out stored_zip_out)) + 22
   \<and> unat (num_records (eocd_out stored_zip_out)) = length (final_entries toyE stored_zip 0 103 0)
   \<and> rdn (z_buf stored_zip_out)
         (record_at (cd_start_out stored_zip_out (resolved_base toyE stored_zip 0 103))
            (final_entries toyE stored_zip 0 103 0) 0) 46
       = enc_CDHeader (cleared (final_entries toyE stored_zip 0 103 0 ! 0))
   \<and> rdn (z_buf stored_zip_out)
         (record_at (cd_start_out stored_zip_out (resolved_base toyE stored_zip 0 103))
            (final_entries toyE stored_zip 0 103 0) 0 + 46)
         (unat (filename_len (final_entries toyE stored_zip 0 103 0 ! 0)))
       = rdn (z_buf stored_zip_out)
           (name_at (z_fp stored_zip_out + resolved_base toyE stored_zip 0 103)
              (final_entries toyE stored_zip 0 103 0 ! 0))
           (unat (filename_len (final_entries toyE stored_zip 0 103 0 ! 0)))"
proof -
  have ps: "p_searchstart 0 103 = 0"
    by (simp add: p_searchstart_small)
  have a: "accepted stored_zip 0 103"
    unfolding accepted_def found_eocd_def found_eocd_at_def ps by code_simp
  have r: "Leanify toyE stored_zip 0 103 0 = Some stored_zip_out"
    unfolding Leanify_def ps by code_simp
  have s: "z_size stored_zip_out < 2 ^ 32"
    by (simp add: stored_zip_out_def)
  have "length (final_entries toyE stored_zip 0 103 0) = 1"
    unfolding final_entries_def found_eocd_def found_eocd_at_def ps by code_simp
  then have i: "0 < length (final_entries toyE stored_zip 0 103 0)"
    by simp
  have n: "name_at (z_fp stored_zip_out + resolved_base toyE stored_zip 0 103)
         (final_entries toyE stored_zip 0 103 0 ! 0)
       + unat (filename_len (final_entries toyE stored_zip 0 103 0 ! 0))
       \<le> cd_start_out stored_zip_out (resolved_base toyE stored_zip 0 103)"
    unfolding final_entries_def resolved_base_def found_eocd_def found_eocd_at_def ps by code_simp
  note t = C10_self_describing[OF a toyE_sort_contract r s]
  from t i n a toyE_sort_contract r s show ?thesis
    by blast
qed

section \<open>Entries that the loop does not write\<close>

lemma compact_unmoved:
  assumes "cd \<in> set cds" and "p_end c < lfh c cd + 30"
  shows "cd \<in> set (snd (compact E c st cds))"
  using assms(1)
proof (induction cds arbitrary: st)
  case Nil
  then show ?case by simp
next
  case (Cons x rest)
  obtain v st' x' where le: "local_entry E c st x = (v, st', x')"
    using prod_cases3 by blast
  show ?case
  proof (cases "x = cd")
    case True
    have "local_entry E c st cd
            = (Skipped, say (Invalid_local_header_offset (local_header_offset cd)) st, cd)"
      using assms(2) by (intro local_entry_Skipped) simp
    with le True have "x' = cd"
      by simp
    then show ?thesis
      by (auto simp: compact_Cons le simp del: compact.simps split: prod.splits)
  next
    case False
    with Cons.prems have "cd \<in> set rest"
      by simp
    from Cons.IH[OF this, of st'] show ?thesis
      using \<open>cd \<in> set rest\<close>
      by (auto simp: compact_Cons le simp del: compact.simps split: prod.splits)
  qed
qed

text \<open>
  C1. An entry of the directory whose 30-byte local header would end more than
  \<open>size_leanified\<close> bytes behind the end of the buffer is skipped by the loop (line
  135), with its offset as it was read. It is not taken out of \<open>cd_headers\<close>: the directory loop comes to it and, if
  its name is not empty, reads the name at that offset, outside the buffer (line
  273). So the function does not exclude it from the directory it writes, and has
  no defined result.
\<close>

theorem C1_skipped_entry_kept:
  fixes E m fp0 size0 size_leanified cd st
  defines "c \<equiv> \<lparr> fp = fp0, p_end = fp0 + size0, base_offset = resolved_base E m fp0 size0,
                   fp_w_base = fp0 - size_leanified + resolved_base E m fp0 size0 \<rparr>"
  assumes "accepted m fp0 size0"
    and "cd \<in> set (parsed_entries E m fp0 size0)"
    and "fp0 + size0 + size_leanified
           < fp0 + resolved_base E m fp0 size0 + unat (local_header_offset cd) + 30"
    and "filename_len cd \<noteq> 0"
  shows "entry_verdict E c st cd = Skipped
     \<and> cd \<in> set (final_entries E m fp0 size0 size_leanified)
     \<and> Leanify E m fp0 size0 size_leanified = None"
proof -
  let ?eocd = "found_eocd m fp0 size0"
  let ?base = "resolved_base E m fp0 size0"
  obtain zo b cds out where r: "read_central_directory E m fp0 size0 ?eocd = (zo, b, cds, out)"
    using prod_cases4 by blast
  have b: "b = ?base" and cds: "cds = parsed_entries E m fp0 size0"
    by (simp_all add: resolved_base_def parsed_entries_def r)
  have far: "p_end c < lfh c cd + 30"
    using assms(4) by (simp add: c_def lfh_def)
  have "local_entry E c st cd
          = (Skipped, say (Invalid_local_header_offset (local_header_offset cd)) st, cd)"
    using far by (intro local_entry_Skipped) simp
  then have v: "entry_verdict E c st cd = Skipped"
    by (simp add: entry_verdict_def)
  have fin: "final_entries E m fp0 size0 size_leanified
               = snd (compacted E m fp0 size0 size_leanified zo ?base cds out)"
    by (simp add: final_entries_def r b)
  have kept: "cd \<in> set (snd (compacted E m fp0 size0 size_leanified zo ?base cds out))"
    unfolding compacted_def using assms(3) far
    by (intro compact_unmoved) (simp_all add: cds c_def)
  have "unat (filename_len cd) \<noteq> 0"
    using assms(5) by (simp add: unat_eq_0)
  then have out: "name_outside (fp0 - size_leanified) (fp0 + size0) (fp0 - size_leanified + ?base) cd"
    using assms(4) by (simp add: name_outside_def name_at_def)
  have "Leanify E m fp0 size0 size_leanified = None"
    using emit_None[OF kept out] by (simp add: Leanify_accepted[OF assms(2)] rewrite_def r b)
  with v kept show ?thesis
    by (simp add: fin)
qed

theorem C1_skipped_entry_kept_witness:
  "accepted lost_zip 0 150
   \<and> lost_cd \<in> set (parsed_entries toyE lost_zip 0 150)
   \<and> 0 + 150 + 0 < 0 + resolved_base toyE lost_zip 0 150 + unat (local_header_offset lost_cd) + 30
   \<and> filename_len lost_cd \<noteq> 0
   \<and> run_verdicts toyE lost_zip 0 150 0 = [Written, Skipped]
   \<and> lost_cd \<in> set (final_entries toyE lost_zip 0 150 0)
   \<and> Leanify toyE lost_zip 0 150 0 = None"
proof -
  have ps: "p_searchstart 0 150 = 0"
    by (simp add: p_searchstart_def)
  have a: "accepted lost_zip 0 150"
    unfolding accepted_def found_eocd_def found_eocd_at_def ps by code_simp
  have p: "lost_cd \<in> set (parsed_entries toyE lost_zip 0 150)"
    unfolding parsed_entries_def found_eocd_def found_eocd_at_def ps by code_simp
  have f: "0 + 150 + 0 < 0 + resolved_base toyE lost_zip 0 150 + unat (local_header_offset lost_cd) + 30"
    unfolding resolved_base_def found_eocd_def found_eocd_at_def ps by code_simp
  have n: "filename_len lost_cd \<noteq> 0"
    by code_simp
  have v: "run_verdicts toyE lost_zip 0 150 0 = [Written, Skipped]"
    unfolding run_verdicts_def found_eocd_def found_eocd_at_def ps by code_simp
  from C1_skipped_entry_kept[OF a p f n] a p f n v show ?thesis
    by blast
qed

section \<open>The data descriptor bit\<close>





section \<open>The file name length of the directory entry\<close>

lemma move_header_fnl_field:
  assumes mh: "move_header E st cd p_read fnl = (st1, p_read1, flg, oc, filename)"
  shows "rd16 (buf st1) (p_write st + 26) = rd16 (buf st) (p_read + 26)"
  using mh
  by (auto simp: move_header_def Let_def rd_disj rd16_memmove_in split: if_splits)

lemma move_header_cerr:
  assumes mh: "move_header E st cd p_read fnl = (st1, p_read1, flg, oc, filename)"
  shows "cerr st1 = cerr st \<or> cerr st1 = cerr st @ [PrintFileName filename]"
  using mh by (auto simp: move_header_def Let_def split: if_splits)

lemma dispatch_cerr:
  assumes "dispatch E st cd hdr p_read flg oc fn = (st', cd')"
  shows "cerr st' = cerr st \<or> cerr st' = cerr st @ [Decompression_failed]"
proof (cases "rd16 (buf st) (hdr + 8) \<noteq> 8 \<or> flg AND 1 \<noteq> 0 \<or> is_fast E")
  case True
  then have "store_or_move E st cd hdr p_read flg oc fn = (st', cd')"
    using assms by (simp add: dispatch_def)
  from store_or_move_cerr[OF this] show ?thesis ..
next
  case False
  then have "deflate_entry E st cd hdr p_read oc fn = (st', cd')"
    using assms by (simp add: dispatch_def)
  then show ?thesis
    by (auto simp: deflate_entry_def Let_def split: if_splits option.splits)
qed

lemma move_header_same_bytes:
  assumes "same_bytes st sk"
    and "move_header E st cd p_read fnl = (st1, p_read1, flg, oc, filename)"
  shows "\<exists>sk1. move_header E sk (cd\<lparr>filename_len := k\<rparr>) p_read fnl = (sk1, p_read1, flg, oc, filename)
           \<and> same_bytes st1 sk1"
  using assms by (auto simp: move_header_def same_bytes_def Let_def split: if_splits)

lemma store_or_move_same_bytes:
  assumes "same_bytes st sk"
    and "store_or_move E st cd hdr p_read flg oc fn = (st', cd')"
  shows "\<exists>sk'. store_or_move E sk (cd\<lparr>filename_len := k\<rparr>) hdr p_read flg oc fn
                  = (sk', cd'\<lparr>filename_len := k\<rparr>)
           \<and> same_bytes st' sk'"
  using assms by (auto simp: store_or_move_def same_bytes_def Let_def split: if_splits)

lemma deflate_entry_same_bytes:
  assumes "same_bytes st sk"
    and "deflate_entry E st cd hdr p_read oc fn = (st', cd')"
  shows "\<exists>sk'. deflate_entry E sk (cd\<lparr>filename_len := k\<rparr>) hdr p_read oc fn
                  = (sk', cd'\<lparr>filename_len := k\<rparr>)
           \<and> same_bytes st' sk'"
  using assms
  by (auto simp: deflate_entry_def same_bytes_def Let_def split: if_splits option.splits)

lemma dispatch_same_bytes:
  assumes "same_bytes st sk"
    and "dispatch E st cd hdr p_read flg oc fn = (st', cd')"
  shows "\<exists>sk'. dispatch E sk (cd\<lparr>filename_len := k\<rparr>) hdr p_read flg oc fn
                  = (sk', cd'\<lparr>filename_len := k\<rparr>)
           \<and> same_bytes st' sk'"
proof (cases "rd16 (buf st) (hdr + 8) \<noteq> 8 \<or> flg AND 1 \<noteq> 0 \<or> is_fast E")
  case True
  then have "store_or_move E st cd hdr p_read flg oc fn = (st', cd')"
    using assms(2) by (simp add: dispatch_def)
  from store_or_move_same_bytes[OF assms(1) this, of k] show ?thesis
    using True assms(1) by (simp add: dispatch_def same_bytes_def)
next
  case False
  then have "deflate_entry E st cd hdr p_read oc fn = (st', cd')"
    using assms(2) by (simp add: dispatch_def)
  from deflate_entry_same_bytes[OF assms(1) this, of k] show ?thesis
    using False assms(1) by (simp add: dispatch_def same_bytes_def)
qed

lemma local_entry_same_bytes:
  assumes ok: "entry_ok c (buf st) cd"
  shows "\<exists>sk. local_entry E c st (cd\<lparr>filename_len := k\<rparr>)
                 = (Written, sk, (entry_cd E c st cd)\<lparr>filename_len := k\<rparr>)
           \<and> same_bytes (entry_state E c st cd) sk"
proof -
  let ?f = "rd16 (buf st) (lfh c cd + 26)"
  let ?cdk = "cd\<lparr>filename_len := k\<rparr>"
  from ok obtain st1 p1 flg oc fn st' cd' where
    mh: "move_header E (warned st ?f cd) (renumbered c st cd) (lfh c cd) ?f = (st1, p1, flg, oc, fn)"
    and d: "dispatch E (st1\<lparr>p_write := p_write st + (30 + unat ?f)\<rparr>)
                  (renumbered c st cd) (p_write st) (payload_at (buf st) (lfh c cd)) flg oc fn
        = (st', cd')"
    and le: "local_entry E c st cd = (Written, st', cd')"
    by (rule entry_ok_Written)
  have lk: "lfh c ?cdk = lfh c cd" and rk: "renumbered c st ?cdk = (renumbered c st cd)\<lparr>filename_len := k\<rparr>"
    by (simp_all add: lfh_def renumbered_def)
  have okk: "entry_ok c (buf st) ?cdk"
    using ok by (auto simp: entry_ok_def lfh_def declared_size_def)
  from okk obtain sk1 p1k flgk ock fnk sk' cdk' where
    mhk: "move_header E (warned st ?f ?cdk) ((renumbered c st cd)\<lparr>filename_len := k\<rparr>) (lfh c cd) ?f
            = (sk1, p1k, flgk, ock, fnk)"
    and dk: "dispatch E (sk1\<lparr>p_write := p_write st + (30 + unat ?f)\<rparr>)
                  ((renumbered c st cd)\<lparr>filename_len := k\<rparr>) (p_write st)
                  (payload_at (buf st) (lfh c cd)) flgk ock fnk
        = (sk', cdk')"
    and lek: "local_entry E c st ?cdk = (Written, sk', cdk')"
    unfolding lk[symmetric] rk[symmetric] by (rule entry_ok_Written[where E = E]) (simp only: lk rk)
  have "same_bytes (warned st ?f cd) (warned st ?f ?cdk)"
    by (simp add: same_bytes_def)
  from move_header_same_bytes[OF this mh, of k] mhk
  have e1: "p1k = p1" "flgk = flg" "ock = oc" "fnk = fn" and s1: "same_bytes st1 sk1"
    by auto
  from s1 have "same_bytes (st1\<lparr>p_write := p_write st + (30 + unat ?f)\<rparr>)
                           (sk1\<lparr>p_write := p_write st + (30 + unat ?f)\<rparr>)"
    by (simp add: same_bytes_def)
  from dispatch_same_bytes[OF this d, of k] dk
  have "cdk' = cd'\<lparr>filename_len := k\<rparr>" and "same_bytes st' sk'"
    by (auto simp: e1)
  with le lek show ?thesis
    by (simp add: entry_cd_def entry_state_def)
qed


theorem C3_claim_counterexample:
  "entry_ok one_ctx (buf one_st) long_cd
   \<and> filename_len long_cd = 2 \<and> rd16 (buf one_st) (lfh one_ctx long_cd + 26) = 1
   \<and> entry_verdict never_inflates one_ctx one_st long_cd = Written
   \<and> rd32 (buf (entry_state never_inflates one_ctx one_st long_cd)) (p_write one_st + 18) = 6
   \<and> p_write (entry_state never_inflates one_ctx one_st long_cd) = p_write one_st + (30 + 1) + 6
   \<and> rdn (buf (entry_state never_inflates one_ctx one_st long_cd)) (p_write one_st) (30 + 1)
       = rdn (buf one_st) (lfh one_ctx long_cd) (30 + 1)
   \<and> rdn (buf (entry_state never_inflates one_ctx one_st long_cd)) (p_write one_st + (30 + 1)) 6
       = rdn (buf one_st) (lfh one_ctx long_cd + (30 + 1)) 6
   \<and> p_write (entry_state never_inflates one_ctx one_st long_cd)
       \<noteq> p_write one_st + (30 + unat (filename_len long_cd)) + 6"
  by code_simp

text \<open>
  C3. For every entry that passes the checks of the loop body, the header that is
  moved has 30 bytes plus the file name length of the local header itself (the field
  at offset 26 of the header that is read): the field and that many bytes of name are
  moved, and the payload is written right behind them. The file name length of the
  directory entry is only compared with it. A disagreement adds one warning to what
  is printed, the entry is written all the same, and whatever length the directory
  entry has, the memory and the write cursor after the entry are the same and the
  directory entry is left with that length.
\<close>

theorem C3_header_size:
  fixes E c st cd k
  defines "m \<equiv> buf st" and "p \<equiv> lfh c cd" and "hdr \<equiv> p_write st"
  defines "n \<equiv> unat (rd16 (buf st) (lfh c cd + 26))"
  defines "st' \<equiv> entry_state E c st cd"
  defines "stk \<equiv> entry_state E c st (cd\<lparr>filename_len := k\<rparr>)"
  assumes ok: "entry_ok c (buf st) cd"
  shows "entry_verdict E c st cd = Written
     \<and> rd16 (buf st') (hdr + 26) = rd16 m (p + 26)
     \<and> rdn (buf st') (hdr + 30) n = rdn m (p + 30) n
     \<and> p_write st' = hdr + (30 + n) + unat (rd32 (buf st') (hdr + 18))
     \<and> (\<exists>rest. cerr st' = cerr st
              @ (if rd16 m (p + 26) \<noteq> filename_len cd then [Filename_length_mismatch] else [])
              @ rest
            \<and> Filename_length_mismatch \<notin> set rest)
     \<and> entry_verdict E c st (cd\<lparr>filename_len := k\<rparr>) = Written
     \<and> buf stk = buf st' \<and> p_write stk = p_write st'
     \<and> entry_cd E c st (cd\<lparr>filename_len := k\<rparr>) = (entry_cd E c st cd)\<lparr>filename_len := k\<rparr>"
proof -
  let ?f = "rd16 (buf st) (lfh c cd + 26)"
  from ok obtain st1 p1 flg oc fn st2 cd2 where
    mh: "move_header E (warned st ?f cd) (renumbered c st cd) (lfh c cd) ?f = (st1, p1, flg, oc, fn)"
    and d: "dispatch E (st1\<lparr>p_write := p_write st + (30 + unat ?f)\<rparr>)
                  (renumbered c st cd) (p_write st) (payload_at (buf st) (lfh c cd)) flg oc fn
        = (st2, cd2)"
    and le: "local_entry E c st cd = (Written, st2, cd2)"
    by (rule entry_ok_Written)
  note f = move_header_facts[OF mh, simplified]
  let ?s = "st1\<lparr>p_write := p_write st + (30 + unat ?f)\<rparr>"
  have st': "st' = st2" and v: "entry_verdict E c st cd = Written"
    using le by (simp_all add: st'_def entry_state_def entry_verdict_def)
  have d30: "p_write st + 30 \<le> p_write ?s"
    by simp
  have keep: "rd8 (buf st2) a = rd8 (buf ?s) a" if "hdr + 26 \<le> a" "a < hdr + 30 + n" for a
    by (rule dispatch_untouched[OF d d30]) (use that in \<open>simp add: hdr_def n_def\<close>)
  have "rd16 (buf st2) (hdr + 26) = rd16 (buf st1) (hdr + 26)"
    by (rule rd16_cong, rule rdn_eqI) (simp add: keep)
  also have "\<dots> = rd16 m (p + 26)"
    using move_header_fnl_field[OF mh] by (simp add: hdr_def m_def p_def)
  finally have a: "rd16 (buf st2) (hdr + 26) = rd16 m (p + 26)" .
  have "rdn (buf st2) (hdr + 30) n = rdn (buf st1) (hdr + 30) n"
    by (rule rdn_eqI) (simp add: keep)
  also have "\<dots> = rdn m (p + 30) n"
    using f(12,13) by (simp add: hdr_def m_def p_def n_def)
  finally have b: "rdn (buf st2) (hdr + 30) n = rdn m (p + 30) n" .
  have "p_write st2 = p_write ?s + unat (rd32 (buf st2) (hdr + 18))"
    unfolding hdr_def by (rule dispatch_p_write[OF d _ d30]) (simp add: f)
  then have pw: "p_write st2 = hdr + (30 + n) + unat (rd32 (buf st2) (hdr + 18))"
    by (simp add: hdr_def n_def)
  have w: "cerr (warned st ?f cd)
             = cerr st @ (if ?f \<noteq> filename_len cd then [Filename_length_mismatch] else [])"
    by (simp add: warned_def)
  have "\<exists>rest. cerr st2 = cerr (warned st ?f cd) @ rest \<and> Filename_length_mismatch \<notin> set rest"
    using move_header_cerr[OF mh] dispatch_cerr[OF d] by auto
  then have log: "\<exists>rest. cerr st2 = cerr st
              @ (if rd16 m (p + 26) \<noteq> filename_len cd then [Filename_length_mismatch] else [])
              @ rest
            \<and> Filename_length_mismatch \<notin> set rest"
    unfolding w by (simp add: m_def p_def)
  from local_entry_same_bytes[OF ok, of E k] obtain sk where
    lek: "local_entry E c st (cd\<lparr>filename_len := k\<rparr>)
            = (Written, sk, (entry_cd E c st cd)\<lparr>filename_len := k\<rparr>)"
    and sb: "same_bytes (entry_state E c st cd) sk"
    by blast
  have k: "entry_verdict E c st (cd\<lparr>filename_len := k\<rparr>) = Written" "stk = sk"
    "entry_cd E c st (cd\<lparr>filename_len := k\<rparr>) = (entry_cd E c st cd)\<lparr>filename_len := k\<rparr>"
    using lek by (simp_all add: entry_verdict_def entry_state_def entry_cd_def stk_def)
  have sb': "buf stk = buf st'" "p_write stk = p_write st'"
    using sb by (simp_all add: same_bytes_def k(2) st'_def)
  show ?thesis
    unfolding st' using v a b pw log k(1,3) sb'[unfolded st'] by blast
qed

theorem C3_header_size_witness:
  "entry_ok one_ctx (buf one_st) long_cd
   \<and> entry_verdict toyE one_ctx one_st long_cd = Written
   \<and> rdn (buf (entry_state toyE one_ctx one_st long_cd)) (p_write one_st + 30)
         (unat (rd16 (buf one_st) (lfh one_ctx long_cd + 26)))
       = rdn (buf one_st) (lfh one_ctx long_cd + 30)
           (unat (rd16 (buf one_st) (lfh one_ctx long_cd + 26)))
   \<and> buf (entry_state toyE one_ctx one_st (long_cd\<lparr>filename_len := 1\<rparr>))
       = buf (entry_state toyE one_ctx one_st long_cd)
   \<and> p_write (entry_state toyE one_ctx one_st (long_cd\<lparr>filename_len := 1\<rparr>))
       = p_write (entry_state toyE one_ctx one_st long_cd)"
proof -
  have h: "entry_ok one_ctx (buf one_st) long_cd" by code_simp
  from C3_header_size[OF h, of toyE 1] h show ?thesis
    by blast
qed

section \<open>Valid archives do not grow\<close>

lemma rd16_above:
  assumes "\<And>a. lo \<le> a \<Longrightarrow> rd8 m' a = rd8 m a" and "lo \<le> p"
  shows "rd16 m' p = rd16 m p"
  by (rule rd16_cong, rule rdn_eqI) (use assms in simp)

lemma rd32_above:
  assumes "\<And>a. lo \<le> a \<Longrightarrow> rd8 m' a = rd8 m a" and "lo \<le> p"
  shows "rd32 m' p = rd32 m p"
  by (rule rd32_cong, rule rdn_eqI) (use assms in simp)

lemma rdn_above:
  assumes "\<And>a. lo \<le> a \<Longrightarrow> rd8 m' a = rd8 m a" and "lo \<le> p"
  shows "rdn m' p n = rdn m p n"
  by (rule rdn_eqI) (use assms in simp)

lemma laid_out_above:
  assumes "laid_out c m lo cds hi" and "\<And>a. lo \<le> a \<Longrightarrow> rd8 m' a = rd8 m a"
  shows "laid_out c m' lo cds hi"
  using assms
proof (induction cds arbitrary: lo)
  case Nil
  then show ?case by simp
next
  case (Cons cd rest)
  let ?p = "lfh c cd"
  from Cons.prems(1) have lo: "lo \<le> ?p" and ok: "entry_ok c m cd"
    and fn: "rd16 m (?p + 26) = filename_len cd"
    and rest: "laid_out c m (payload_at m ?p + unat (declared_size m ?p cd)) rest hi"
    by simp_all
  note same = Cons.prems(2)
  have r16: "rd16 m' (?p + k) = rd16 m (?p + k)" for k
    by (rule rd16_above[where lo = lo]) (use same lo in simp_all)
  have r32: "rd32 m' (?p + k) = rd32 m (?p + k)" for k
    by (rule rd32_above[where lo = lo]) (use same lo in simp_all)
  have mg: "rdn m' ?p 4 = rdn m ?p 4"
    by (rule rdn_above[where lo = lo]) (use same lo in simp_all)
  have ds: "declared_size m' ?p cd = declared_size m ?p cd"
    by (simp add: declared_size_def r16 r32)
  have pa: "payload_at m' ?p = payload_at m ?p"
    by (simp add: payload_at_def r16)
  have ok': "entry_ok c m' cd"
    using ok by (simp add: entry_ok_def r16 mg ds)
  have "laid_out c m' (payload_at m ?p + unat (declared_size m ?p cd)) rest hi"
  proof (rule Cons.IH[OF rest])
    fix a
    assume "payload_at m ?p + unat (declared_size m ?p cd) \<le> a"
    then have "lo \<le> a"
      using lo by (simp add: payload_at_def)
    then show "rd8 m' a = rd8 m a"
      by (rule same)
  qed
  then show ?case
    using lo ok' fn by (simp add: r16 ds pa)
qed

lemma unat_of_nat_le: "unat (of_nat n :: 32 word) \<le> n"
  by (simp add: unat_of_nat)

lemma compact_laid_out:
  assumes "laid_out c (buf st) lo cds hi" and "p_write st + g \<le> lo"
    and "fp_w_base c \<le> p_write st" and "minifier_contract E"
  shows "p_write (fst (compact E c st cds)) + g \<le> hi
     \<and> (\<forall>cd' \<in> set (snd (compact E c st cds)).
           name_at (fp_w_base c) cd' + unat (filename_len cd') \<le> p_write (fst (compact E c st cds)))"
  using assms(1-3)
proof (induction cds arbitrary: st lo)
  case Nil
  then show ?case by simp
next
  case (Cons cd rest)
  let ?p = "lfh c cd"
  let ?n = "unat (rd16 (buf st) (?p + 26))"
  let ?lo' = "payload_at (buf st) ?p + unat (declared_size (buf st) ?p cd)"
  from Cons.prems(1) have lo: "lo \<le> ?p" and ok: "entry_ok c (buf st) cd"
    and fn: "rd16 (buf st) (?p + 26) = filename_len cd"
    and rest: "laid_out c (buf st) ?lo' rest hi"
    by simp_all
  from ok obtain st2 st' cd' where
    d: "dispatch E st2 (renumbered c st cd) (p_write st) (payload_at (buf st) ?p)
          (rd16 (buf st) (?p + 6)) (declared_size (buf st) ?p cd)
          (rdn (buf st) (?p + 30) ?n) = (st', cd')"
    and le: "local_entry E c st cd = (Written, st', cd')"
    and pw2: "p_write st2 = p_write st + (30 + ?n)"
    and cs: "rd32 (buf st2) (p_write st + 18) = declared_size (buf st) ?p cd"
    by (rule entry_ok_dispatch[where E = E])
  have d30: "p_write st + 30 \<le> p_write st2"
    by (simp add: pw2)
  have pw': "p_write st' = p_write st + (30 + ?n) + unat (rd32 (buf st') (p_write st + 18))"
    using dispatch_p_write[OF d cs d30] by (simp add: pw2)
  note b = local_entry_bounded[OF le assms(4)]
  have up: "p_write st' + g \<le> ?lo'"
    using b(1) Cons.prems(2) lo by (simp add: payload_at_def)
  have same: "rd8 (buf st') a = rd8 (buf st) a" if "?lo' \<le> a" for a
    by (rule b(2)) (use that Cons.prems(2) lo in \<open>simp add: payload_at_def\<close>)
  have rest': "laid_out c (buf st') ?lo' rest hi"
    by (rule laid_out_above[OF rest same])
  have fwb': "fp_w_base c \<le> p_write st'"
    using Cons.prems(3) pw' by simp
  note ih = Cons.IH[OF rest' up fwb']
  obtain st'' rest'' where r: "compact E c st' rest = (st'', rest'')"
    by fastforce
  have c: "compact E c st (cd # rest) = (st'', cd' # rest'')"
    using compact_Written[OF le, of rest] r by simp
  have mono: "p_write st' \<le> p_write st''"
    using compact_p_write_mono[of st' E c rest] r by simp
  from dispatch_other_fields[OF d] have
    "filename_len cd' = filename_len cd"
    "local_header_offset cd' = of_nat (p_write st - fp_w_base c)"
    using other_fields_sel[of cd' "renumbered c st cd"] by (simp_all add: renumbered_def)
  then have "name_at (fp_w_base c) cd' + unat (filename_len cd')
               \<le> fp_w_base c + (p_write st - fp_w_base c) + 30 + ?n"
    using unat_of_nat_le[of "p_write st - fp_w_base c"] by (simp add: name_at_def fn)
  also have "\<dots> \<le> p_write st'"
    using Cons.prems(3) pw' by simp
  finally have head: "name_at (fp_w_base c) cd' + unat (filename_len cd') \<le> p_write st''"
    using mono by simp
  show ?case
    using ih head by (simp add: c r del: compact.simps)
qed

lemma write_cd_headers_Some:
  assumes "\<And>cd. cd \<in> set cds \<Longrightarrow> \<not> name_outside lo hi fwb cd"
  shows "\<exists>r. write_cd_headers lo hi fwb m pw cds = Some r"
  using assms
proof (induction cds arbitrary: m pw)
  case Nil
  show ?case by simp
next
  case (Cons cd rest)
  have "\<not> name_outside lo hi fwb cd"
    by (rule Cons.prems) simp
  moreover have "\<exists>r. write_cd_headers lo hi fwb m' pw' rest = Some r" for m' pw'
    by (rule Cons.IH) (simp add: Cons.prems)
  ultimately show ?case
    by (simp add: write_cd_headers_Cons del: write_cd_headers.simps)
qed

lemma laid_out_ctx:
  "laid_out (c\<lparr>fp_w_base := x\<rparr>) m lo cds hi = laid_out c m lo cds hi"
  by (induction cds arbitrary: lo) (simp_all add: lfh_def entry_ok_def)

lemma toyE_minifier_contract: "minifier_contract toyE"
  by (simp add: minifier_contract_def toyE_def toy_min_def)

text \<open>
  C4. For every valid archive and a minifier that never leaves more than it was
  given, the function returns, and the length it returns is not greater than the
  length of the input.
\<close>

theorem C4_no_growth:
  assumes v: "valid_archive E m fp0 size0 size_leanified" and mc: "minifier_contract E"
  shows "\<exists>z. Leanify E m fp0 size0 size_leanified = Some z \<and> z_size z \<le> size0"
proof -
  let ?eocd = "found_eocd m fp0 size0"
  let ?sl = size_leanified
  obtain zo base cds out where r: "read_central_directory E m fp0 size0 ?eocd = (zo, base, cds, out)"
    using prod_cases4 by blast
  let ?c = "\<lparr> fp = fp0, p_end = fp0 + size0, base_offset = base, fp_w_base = fp0 - ?sl + base \<rparr>"
  let ?hi = "fp0 + base + unat (cd_offset ?eocd)"
  let ?st0 = "\<lparr> buf = memmove m (fp0 - ?sl) fp0 zo, p_write = fp0 - ?sl + zo, cerr = out \<rparr>"
  note v' = v[unfolded valid_archive_def r prod.case]
  from v' have acc: "accepted m fp0 size0" by blast
  from v' have sl: "?sl \<le> fp0" by blast
  from v' have lay: "laid_out ?c m (fp0 + zo) cds ?hi" by blast
  from v' have sz: "sum_list (map record_size cds) \<le> unat (cd_size ?eocd)" by blast
  from v' have fit: "?hi + unat (cd_size ?eocd) \<le> found_eocd_at m fp0 size0" by blast
  from acc have eo: "found_eocd_at m fp0 size0 + 22 \<le> fp0 + size0"
    by (simp add: accepted_def)
  have bz: "base = 0 \<or> base = zo"
    by (rule resolved_base_le[OF r])
  have lay0: "laid_out ?c (buf ?st0) (fp0 + zo) cds ?hi"
    by (rule laid_out_above[OF lay]) (use sl in \<open>auto simp: rd8_memmove\<close>)
  have "p_write (fst (compact E ?c ?st0 cds)) + ?sl \<le> ?hi
     \<and> (\<forall>cd' \<in> set (snd (compact E ?c ?st0 cds)).
           name_at (fp_w_base ?c) cd' + unat (filename_len cd') \<le> p_write (fst (compact E ?c ?st0 cds)))"
    by (rule compact_laid_out[OF lay0 _ _ mc]) (use sl bz in auto)
  moreover obtain stf cds' where cp: "compact E ?c ?st0 cds = (stf, cds')"
    by fastforce
  ultimately have top: "p_write stf + ?sl \<le> ?hi"
    and names: "\<And>cd'. cd' \<in> set cds' \<Longrightarrow>
                  name_at (fp0 - ?sl + base) cd' + unat (filename_len cd') \<le> p_write stf"
    by simp_all
  have inside: "\<not> name_outside (fp0 - ?sl) (fp0 + size0) (fp0 - ?sl + base) cd'"
    if "cd' \<in> set cds'" for cd'
    using names[OF that] top fit eo by (simp add: name_outside_def name_at_def)
  from write_cd_headers_Some[of cds' "fp0 - ?sl" "fp0 + size0" "fp0 - ?sl + base" "buf stf" "p_write stf"]
  obtain M pw where
    w: "write_cd_headers (fp0 - ?sl) (fp0 + size0) (fp0 - ?sl + base) (buf stf) (p_write stf) cds'
          = Some (M, pw)"
    using inside by fastforce
  have "map record_size cds' = map record_size cds"
    using compacted_facts(4)[where E = E and m = m and ?fp0.0 = fp0 and ?size0.0 = size0
        and sl = ?sl and zo = zo and base = base and cds = cds and out = out] cp
    by (simp add: compacted_def)
  then have pw: "pw = p_write stf + sum_list (map record_size cds)"
    using write_cd_headers_pw[OF w] by simp
  obtain z where z: "emit E m fp0 size0 ?sl ?eocd zo base cds out = Some z"
    and zs: "z_size z = pw + 22 - (fp0 - ?sl)"
    using cp w by (simp add: emit_def Let_def)
  have "Leanify E m fp0 size0 ?sl = Some z"
    using z by (simp add: Leanify_accepted[OF acc] rewrite_def r)
  moreover have "z_size z \<le> size0"
    using top sz fit eo sl by (simp add: zs pw)
  ultimately show ?thesis
    by blast
qed

theorem C4_no_growth_witness:
  "valid_archive toyE stored_zip 0 103 0 \<and> minifier_contract toyE
   \<and> (\<exists>z. Leanify toyE stored_zip 0 103 0 = Some z \<and> z_size z \<le> 103)"
proof -
  have ps: "p_searchstart 0 103 = 0"
    by (simp add: p_searchstart_def)
  have v: "valid_archive toyE stored_zip 0 103 0"
    unfolding valid_archive_def accepted_def found_eocd_def found_eocd_at_def ps by code_simp
  from C4_no_growth[OF v toyE_minifier_contract] v toyE_minifier_contract show ?thesis
    by blast
qed

section \<open>A stub in front of the archive\<close>

lemma find_app:
  "find P (xs @ ys) = (case find P xs of None \<Rightarrow> find P ys | Some x \<Rightarrow> Some x)"
  by (induction xs) auto

lemma find_end_window:
  assumes "s1 \<le> s2" and "find_end m s2 e pat \<noteq> e"
  shows "find_end m s1 e pat = find_end m s2 e pat"
proof -
  let ?P = "\<lambda>p. rdn m p (length pat) = pat"
  let ?u = "e + 1 - length pat"
  from assms(2) obtain p where f: "find ?P (rev [s2..<?u]) = Some p"
    by (auto simp: find_end_def split: option.splits)
  then have "s2 \<le> ?u"
    by (cases "s2 \<le> ?u") auto
  then have "[s1..<?u] = [s1..<s2] @ [s2..<?u]"
    using assms(1) by (metis le_Suc_ex upt_add_eq_append)
  then have "find ?P (rev [s1..<?u]) = Some p"
    using f by (simp add: find_app)
  with f show ?thesis
    by (simp add: find_end_def)
qed

lemma search_hit:
  assumes "search m a l pat = p" and "p + length pat \<le> l"
  shows "rdn m p (length pat) = pat"
proof (cases "find (\<lambda>p. rdn m p (length pat) = pat) [a..<l + 1 - length pat]")
  case None
  with assms show ?thesis
    by (cases pat) (auto simp: search_def rdn_def)
next
  case (Some q)
  with assms(1) have "q = p"
    by (simp add: search_def)
  with Some show ?thesis
    by (auto simp: find_Some_iff)
qed

lemma search_here:
  assumes "rdn m a (length pat) = pat" and "a + length pat \<le> l"
  shows "search m a l pat = a"
proof -
  have "[a..<l + 1 - length pat] = a # [Suc a..<l + 1 - length pat]"
    using assms(2) by (simp add: upt_conv_Cons)
  then show ?thesis
    using assms(1) by (simp add: search_def)
qed

lemma read_cd_headers_later:
  assumes "0 < i"
    and "read_cd_headers m fp1 pe zo1 i k (hs, p, ce, b1, out1) = (hs', p', ce', b1', out1')"
  shows "b1' = b1
     \<and> (\<exists>out2'. read_cd_headers m fp2 pe zo2 i k (hs, p, ce, b2, out2) = (hs', p', ce', b2, out2'))"
  using assms
proof (induction k arbitrary: i hs p out1 out2)
  case 0
  then show ?case by simp
next
  case (Suc k)
  show ?case
  proof (cases "ce < p + 46 \<or> rdn m p 4 \<noteq> cd_magic")
    case True
    with Suc.prems show ?thesis
      by (auto simp: read_cd_headers_Suc simp del: read_cd_headers.simps split: if_splits)
  next
    case False
    let ?h = "dec_CDHeader m p"
    let ?p = "p + 46 + unat (filename_len ?h) + unat (extra_field_len ?h) + unat (comment_len ?h)"
    from False Suc.prems(2) have
      "read_cd_headers m fp1 pe zo1 (i + 1) k (hs @ [?h], ?p, ce, b1, out1) = (hs', p', ce', b1', out1')"
      by (simp add: read_cd_headers_Suc del: read_cd_headers.simps)
    from Suc.IH[OF _ this, of out2] show ?thesis
      using False by (simp add: read_cd_headers_Suc del: read_cd_headers.simps)
  qed
qed

lemma memmove_same_place:
  assumes "a + n \<le> length m"
  shows "memmove m a a n = m"
proof -
  have "rdn m a n = take n (drop a m)"
    using assms by (auto simp: rdn_def rd8_def list_eq_iff_nth_eq)
  then have "memmove m a a n = take a m @ take n (drop a m) @ drop (a + n) m"
    using assms by (simp add: memmove_def wrn_def)
  also have "\<dots> = take a m @ drop a m"
    by (metis append_take_drop_id drop_drop add.commute)
  finally show ?thesis
    by simp
qed

lemma local_entry_ctx:
  assumes "fp c + base_offset c = fp c' + base_offset c'" and "p_end c = p_end c'"
    and "fp_w_base c = fp_w_base c'"
  shows "local_entry E c st cd = local_entry E c' st cd"
  unfolding local_entry_def assms(1) assms(2) assms(3) by (rule refl)

lemma compact_ctx:
  assumes "fp c + base_offset c = fp c' + base_offset c'" and "p_end c = p_end c'"
    and "fp_w_base c = fp_w_base c'"
  shows "compact E c st cds = compact E c' st cds"
proof (induction cds arbitrary: st)
  case Nil
  show ?case by simp
next
  case (Cons cd rest)
  obtain v st1 cd1 where le: "local_entry E c' st cd = (v, st1, cd1)"
    using prod_cases3 by blast
  show ?case
    by (simp add: compact_Cons local_entry_ctx[OF assms] le Cons.IH del: compact.simps)
qed

lemma local_entry_log:
  assumes sb: "same_bytes st sk" and le: "local_entry E c st cd = (v, st', cd')"
  shows "\<exists>sk'. local_entry E c sk cd = (v, sk', cd') \<and> same_bytes st' sk'"
proof -
  from sb have b: "buf sk = buf st" and w: "p_write sk = p_write st"
    by (simp_all add: same_bytes_def)
  let ?f = "rd16 (buf st) (lfh c cd + 26)"
  have rn: "renumbered c sk cd = renumbered c st cd"
    by (simp add: renumbered_def w)
  show ?thesis
  proof (cases "lfh c cd + 30 \<le> p_end c \<and> rdn (buf st) (lfh c cd) 4 = header_magic")
    case False
    from local_entry_Skipped[OF False, of E] local_entry_Skipped[of c cd sk E] False le
    show ?thesis
      by (auto simp: b w same_bytes_def)
  next
    case chk0: True
    show ?thesis
    proof (cases "p_end c < lfh c cd + (30 + unat ?f)")
      case True
      from local_entry_eof[of c cd st E] local_entry_eof[of c cd sk E] chk0 True le
      show ?thesis
        by (auto simp: b w rn same_bytes_def)
    next
      case False
      obtain st1 p1 flg oc fn where
        mh: "move_header E (warned st ?f cd) (renumbered c st cd) (lfh c cd) ?f = (st1, p1, flg, oc, fn)"
        using prod_cases5 by blast
      have "same_bytes (warned st ?f cd) (warned sk ?f cd)"
        by (simp add: same_bytes_def b w)
      from move_header_same_bytes[OF this mh, of "filename_len (renumbered c st cd)"]
      obtain sk1 where
        mhk: "move_header E (warned sk ?f cd) (renumbered c st cd) (lfh c cd) ?f = (sk1, p1, flg, oc, fn)"
        and s1: "same_bytes st1 sk1"
        by auto
      note m1 = local_entry_moved[OF _ _ _ mh]
      note m2 = local_entry_moved[of c cd sk E sk1 p1 flg oc fn]
      show ?thesis
      proof (cases "p_end c < p1 + unat oc")
        case True
        with m1 m2 chk0 False mhk le s1 show ?thesis
          by (auto simp: b w rn same_bytes_def)
      next
        case fits: False
        let ?s = "st1\<lparr>p_write := p_write st + (30 + unat ?f)\<rparr>"
        let ?k = "sk1\<lparr>p_write := p_write st + (30 + unat ?f)\<rparr>"
        obtain st2 cd2 where
          d: "dispatch E ?s (renumbered c st cd) (p_write st) (payload_at (buf st) (lfh c cd)) flg oc fn
                = (st2, cd2)"
          by fastforce
        have "same_bytes ?s ?k"
          using s1 by (simp add: same_bytes_def)
        from dispatch_same_bytes[OF this d, of "filename_len cd2"] obtain sk2 where
          dk: "dispatch E ?k (renumbered c st cd) (p_write st) (payload_at (buf st) (lfh c cd)) flg oc fn
                = (sk2, cd2)"
          and s2: "same_bytes st2 sk2"
          using dispatch_other_fields[OF d] other_fields_sel[of cd2 "renumbered c st cd"]
          by auto
        from m1 m2 chk0 False mhk le fits d dk s2 show ?thesis
          by (auto simp: b w rn)
      qed
    qed
  qed
qed

lemma compact_log:
  assumes "same_bytes st sk" and "compact E c st cds = (st', cds')"
  shows "\<exists>sk'. compact E c sk cds = (sk', cds') \<and> same_bytes st' sk'"
  using assms
proof (induction cds arbitrary: st sk st' cds')
  case Nil
  then show ?case by simp
next
  case (Cons cd rest)
  obtain v st1 cd1 where le: "local_entry E c st cd = (v, st1, cd1)"
    using prod_cases3 by blast
  from local_entry_log[OF Cons.prems(1) le] obtain sk1 where
    lek: "local_entry E c sk cd = (v, sk1, cd1)" and s1: "same_bytes st1 sk1"
    by blast
  show ?case
  proof (cases "v = Stopped")
    case True
    with Cons.prems(2) le lek s1 show ?thesis
      by (simp add: compact_Cons del: compact.simps)
  next
    case False
    obtain st2 rest2 where r: "compact E c st1 rest = (st2, rest2)"
      by fastforce
    from Cons.IH[OF s1 r] obtain sk2 where
      rk: "compact E c sk1 rest = (sk2, rest2)" and s2: "same_bytes st2 sk2"
      by blast
    from Cons.prems(2) le lek False r rk s2 show ?thesis
      by (simp add: compact_Cons del: compact.simps)
  qed
qed

lemma write_cd_headers_lo:
  assumes "lo \<le> fwb" and "lo' \<le> fwb"
  shows "write_cd_headers lo hi fwb m pw cds = write_cd_headers lo' hi fwb m pw cds"
proof (induction cds arbitrary: m pw)
  case Nil
  show ?case by simp
next
  case (Cons cd rest)
  have "name_outside lo hi fwb cd = name_outside lo' hi fwb cd"
    using assms by (simp add: name_outside_def name_at_def)
  then show ?case
    by (simp add: write_cd_headers_Cons Cons.IH del: write_cd_headers.simps)
qed

lemma stub_directory:
  fixes E m fp0 N n
  defines "e0 \<equiv> found_eocd m (fp0 + N) n"
  defines "co \<equiv> unat (cd_offset (found_eocd m (fp0 + N) n))"
  assumes acc: "accepted m (fp0 + N) n"
    and first: "search m fp0 (fp0 + co) header_magic = fp0 + N" and before: "N + 4 \<le> co"
    and rel: "rdn m (fp0 + N + co) 4 = cd_magic"
    and nominal: "rdn m (fp0 + co) 4 \<noteq> cd_magic"
    and recs: "num_records e0 \<noteq> 0" and big: "46 \<le> unat (cd_size e0)"
  obtains cds out1 out2 where
    "read_central_directory E m fp0 (N + n) e0 = (N, N, cds, out1)"
    and "read_central_directory E m (fp0 + N) n e0 = (0, 0, cds, out2)"
proof -
  let ?P = "fp0 + N + n"
  let ?cs = "unat (cd_size e0)"
  have co: "unat (cd_offset e0) = co"
    by (simp add: co_def e0_def)
  from acc have fit: "fp0 + N + co + ?cs + 22 \<le> ?P"
    by (simp add: accepted_def e0_def co_def)
  have hm: "length header_magic = 4"
    by (simp add: header_magic_def)
  have "rdn m (fp0 + N) (length header_magic) = header_magic"
    by (rule search_hit[OF first]) (use before in \<open>simp add: hm\<close>)
  then have second: "search m (fp0 + N) (fp0 + N + co) header_magic = fp0 + N"
    by (rule search_here) (use before in \<open>simp add: hm\<close>)
  from recs obtain k where k: "unat (num_records e0) = Suc k"
    by (cases "unat (num_records e0)") (simp_all add: unat_eq_0)
  let ?h = "dec_CDHeader m (fp0 + N + co)"
  let ?p = "fp0 + N + co + 46 + unat (filename_len ?h) + unat (extra_field_len ?h)
              + unat (comment_len ?h)"
  have rel': "rdn m (fp0 + co + N) 4 = cd_magic"
    using rel by (simp add: add_ac)
  have one: "read_cd_headers m fp0 ?P N 0 (Suc k) ([], fp0 + co, fp0 + co + ?cs, 0, [])
               = read_cd_headers m fp0 ?P N 1 k ([?h], ?p, fp0 + N + co + ?cs, N, [])"
    using big nominal rel' fit by (simp add: read_cd_headers_Suc Let_def add_ac del: read_cd_headers.simps)
  have two: "read_cd_headers m (fp0 + N) ?P 0 0 (Suc k)
                 ([], fp0 + N + co, fp0 + N + co + ?cs, 0, [])
               = read_cd_headers m (fp0 + N) ?P 0 1 k ([?h], ?p, fp0 + N + co + ?cs, 0, [])"
    using big rel by (simp add: read_cd_headers_Suc Let_def del: read_cd_headers.simps)
  obtain hs' p' ce' b' out' where
    r1: "read_cd_headers m fp0 ?P N 1 k ([?h], ?p, fp0 + N + co + ?cs, N, []) = (hs', p', ce', b', out')"
    using prod_cases5 by blast
  from read_cd_headers_later[OF _ r1, of "fp0 + N" 0 0 "[]"] obtain out2' where
    b': "b' = N"
    and r2: "read_cd_headers m (fp0 + N) ?P 0 1 k ([?h], ?p, fp0 + N + co + ?cs, 0, [])
               = (hs', p', ce', 0, out2')"
    by auto
  have z1: "search m fp0 (fp0 + unat (cd_offset e0)) header_magic - fp0 = N"
    using first by (simp add: co)
  have z2: "search m (fp0 + N) (fp0 + N + unat (cd_offset e0)) header_magic - (fp0 + N) = 0"
    using second by (simp add: co)
  have R1: "read_cd_headers m fp0 (fp0 + (N + n)) N 0 (unat (num_records e0))
              ([], fp0 + unat (cd_offset e0), fp0 + unat (cd_offset e0) + unat (cd_size e0), 0, [])
            = (hs', p', ce', N, out')"
    unfolding k co using one r1 b' by (simp add: add.assoc del: read_cd_headers.simps)
  have R2: "read_cd_headers m (fp0 + N) (fp0 + N + n) 0 0 (unat (num_records e0))
              ([], fp0 + N + unat (cd_offset e0),
               fp0 + N + unat (cd_offset e0) + unat (cd_size e0), 0, [])
            = (hs', p', ce', 0, out2')"
    unfolding k co using two r2 by (simp del: read_cd_headers.simps)
  show thesis
  proof (rule that)
    show "read_central_directory E m fp0 (N + n) e0
            = (N, N, std_sort E hs', if p' \<noteq> ce' then out' @ [CD_size_mismatch] else out')"
      unfolding read_central_directory_def Let_def z1 R1 by simp
    show "read_central_directory E m (fp0 + N) n e0
            = (0, 0, std_sort E hs', if p' \<noteq> ce' then out2' @ [CD_size_mismatch] else out2')"
      unfolding read_central_directory_def Let_def z2 R2 by simp
  qed
qed

lemma stub_accepted:
  assumes acc: "accepted m (fp0 + N) n"
  shows "found_eocd_at m fp0 (N + n) = found_eocd_at m (fp0 + N) n"
    and "found_eocd m fp0 (N + n) = found_eocd m (fp0 + N) n"
    and "accepted m fp0 (N + n)"
proof -
  have s: "p_searchstart fp0 (N + n) \<le> p_searchstart (fp0 + N) n"
    by (auto simp: p_searchstart_def max_def)
  from acc have "find_end m (p_searchstart (fp0 + N) n) (fp0 + (N + n)) eocd_magic \<noteq> fp0 + (N + n)"
    by (simp add: accepted_def found_eocd_at_def add.assoc)
  from find_end_window[OF s this]
  show a: "found_eocd_at m fp0 (N + n) = found_eocd_at m (fp0 + N) n"
    by (simp add: found_eocd_at_def add.assoc)
  then show e: "found_eocd m fp0 (N + n) = found_eocd m (fp0 + N) n"
    by (simp add: found_eocd_def)
  show "accepted m fp0 (N + n)"
    using acc by (simp add: accepted_def a e add.assoc)
qed

theorem C9_claim_counterexample:
  "valid_archive toyE decoy_zip 4 107 0 \<and> minifier_contract toyE
   \<and> search decoy_zip 0 (0 + unat (cd_offset (found_eocd decoy_zip 4 107))) header_magic = 0 + 4
   \<and> 4 + 4 \<le> unat (cd_offset (found_eocd decoy_zip 4 107))
   \<and> rdn decoy_zip (0 + 4 + unat (cd_offset (found_eocd decoy_zip 4 107))) 4 = cd_magic
   \<and> Leanify toyE decoy_zip 4 107 0 \<noteq> None
   \<and> z_size (the (Leanify toyE decoy_zip 4 107 0)) = 106
   \<and> rdn (z_buf (the (Leanify toyE decoy_zip 4 107 0))) 4 4 = header_magic
   \<and> Leanify toyE decoy_zip 0 (4 + 107) 0 \<noteq> None
   \<and> z_size (the (Leanify toyE decoy_zip 0 (4 + 107) 0)) = 79
   \<and> rdn (z_buf (the (Leanify toyE decoy_zip 0 (4 + 107) 0))) 4 4 = cd_magic"
proof -
  have ps: "p_searchstart 4 107 = 4" "p_searchstart 0 (4 + 107) = 0"
    by (simp_all add: p_searchstart_def)
  have "valid_archive toyE decoy_zip 4 107 0"
    unfolding valid_archive_def accepted_def found_eocd_def found_eocd_at_def ps by code_simp
  moreover have "search decoy_zip 0 (0 + unat (cd_offset (found_eocd decoy_zip 4 107))) header_magic = 0 + 4
      \<and> 4 + 4 \<le> unat (cd_offset (found_eocd decoy_zip 4 107))
      \<and> rdn decoy_zip (0 + 4 + unat (cd_offset (found_eocd decoy_zip 4 107))) 4 = cd_magic"
    unfolding found_eocd_def found_eocd_at_def ps by code_simp
  moreover have "Leanify toyE decoy_zip 4 107 0 \<noteq> None
      \<and> z_size (the (Leanify toyE decoy_zip 4 107 0)) = 106
      \<and> rdn (z_buf (the (Leanify toyE decoy_zip 4 107 0))) 4 4 = header_magic"
    unfolding Leanify_def ps by code_simp
  moreover have "Leanify toyE decoy_zip 0 (4 + 107) 0 \<noteq> None
      \<and> z_size (the (Leanify toyE decoy_zip 0 (4 + 107) 0)) = 79
      \<and> rdn (z_buf (the (Leanify toyE decoy_zip 0 (4 + 107) 0))) 4 4 = cd_magic"
    unfolding Leanify_def ps by code_simp
  ultimately show ?thesis
    using toyE_minifier_contract by blast
qed

text \<open>
  C9. An archive of at least one directory record is processed alone, in the last
  \<open>n\<close> bytes of the buffer, and with the \<open>N\<close> bytes before it as a stub. The first
  local header magic of the whole is at offset \<open>N\<close>, before the directory start that
  the end record gives; the directory is found \<open>N\<close> bytes behind that start, and no
  directory magic stands at that start itself. Then the function returns for the
  whole if it returns for the archive alone, with the same memory: the output of the
  whole is \<open>N\<close> bytes longer, it starts with the \<open>N\<close> bytes of the stub, and the
  output of the archive alone follows them. This is for \<open>size_leanified = 0\<close> and a
  buffer that lies in the memory.
\<close>

theorem C9_stub_prefix:
  fixes E m fp0 N n z2
  defines "e0 \<equiv> found_eocd m (fp0 + N) n"
  defines "co \<equiv> unat (cd_offset (found_eocd m (fp0 + N) n))"
  assumes mem: "fp0 + N + n \<le> length m"
    and acc: "accepted m (fp0 + N) n"
    and first: "search m fp0 (fp0 + co) header_magic = fp0 + N" and before: "N + 4 \<le> co"
    and rel: "rdn m (fp0 + N + co) 4 = cd_magic"
    and nominal: "rdn m (fp0 + co) 4 \<noteq> cd_magic"
    and recs: "num_records e0 \<noteq> 0" and big: "46 \<le> unat (cd_size e0)"
    and ret: "Leanify E m (fp0 + N) n 0 = Some z2"
  shows "\<exists>z1. Leanify E m fp0 (N + n) 0 = Some z1
           \<and> z_fp z1 = fp0 \<and> z_fp z2 = fp0 + N \<and> z_size z1 = N + z_size z2
           \<and> z_buf z1 = z_buf z2
           \<and> rdn (z_buf z1) fp0 N = rdn m fp0 N
           \<and> rdn (z_buf z1) (fp0 + N) (z_size z2) = rdn (z_buf z2) (z_fp z2) (z_size z2)"
proof -
  note sa = stub_accepted[OF acc]
  from acc first before rel nominal recs big obtain cds out1 out2 where
    r1: "read_central_directory E m fp0 (N + n) e0 = (N, N, cds, out1)"
    and r2: "read_central_directory E m (fp0 + N) n e0 = (0, 0, cds, out2)"
    unfolding e0_def co_def by (rule stub_directory[where E = E])
  let ?c1 = "\<lparr> fp = fp0, p_end = fp0 + (N + n), base_offset = N, fp_w_base = fp0 + N \<rparr>"
  let ?c2 = "\<lparr> fp = fp0 + N, p_end = fp0 + N + n, base_offset = 0, fp_w_base = fp0 + N \<rparr>"
  let ?s1 = "\<lparr> buf = m, p_write = fp0 + N, cerr = out1 \<rparr>"
  let ?s2 = "\<lparr> buf = m, p_write = fp0 + N, cerr = out2 \<rparr>"
  have mv1: "memmove m fp0 fp0 N = m"
    by (rule memmove_same_place) (use mem in simp)
  have mv2: "memmove m (fp0 + N) (fp0 + N) 0 = m"
    by (rule memmove_same_place) (use mem in simp)
  obtain st1 cds' where cp1: "compact E ?c1 ?s1 cds = (st1, cds')"
    by fastforce
  have "compact E ?c2 ?s1 cds = (st1, cds')"
    using compact_ctx[of ?c1 ?c2 E ?s1 cds] cp1 by (simp add: add.assoc)
  from compact_log[OF _ this, of ?s2] obtain st2 where
    cp2: "compact E ?c2 ?s2 cds = (st2, cds')" and sb: "same_bytes st1 st2"
    by (auto simp: same_bytes_def)
  from sb have b: "buf st2 = buf st1" and pw: "p_write st2 = p_write st1"
    by (simp_all add: same_bytes_def)
  define e where "e = e0\<lparr>cd_offset := of_nat (p_write st1 - (fp0 + N))\<rparr>"
  have em2: "emit E m (fp0 + N) n 0 e0 0 0 cds out2 = Some z2"
    using ret by (simp add: Leanify_accepted[OF acc] rewrite_def r2 e0_def[symmetric])
  then obtain M pw' where
    w2: "write_cd_headers (fp0 + N) (fp0 + N + n) (fp0 + N) (buf st1) (p_write st1) cds'
           = Some (M, pw')"
    and z2: "z2 = \<lparr> z_buf = wrn M pw' (enc_EOCD (e\<lparr>num_records := of_nat (length cds'),
                       num_records_total := of_nat (length cds'),
                       cd_size := of_nat (pw' - (fp0 + N) - unat (cd_offset e)),
                       eocd_comment_len := 0\<rparr>)),
                  z_fp = fp0 + N, z_size = pw' + 22 - (fp0 + N), z_cerr = cerr st2 \<rparr>"
    by (auto simp: emit_def Let_def mv2 cp2 b pw e_def split: option.splits)
  have w1: "write_cd_headers fp0 (fp0 + (N + n)) (fp0 + N) (buf st1) (p_write st1) cds'
           = Some (M, pw')"
    using write_cd_headers_lo[of fp0 "fp0 + N" "fp0 + N" "fp0 + N + n" "buf st1" "p_write st1" cds'] w2
    by (simp add: add.assoc)
  define z1 where "z1 = \<lparr> z_buf = wrn M pw' (enc_EOCD (e\<lparr>num_records := of_nat (length cds'),
                       num_records_total := of_nat (length cds'),
                       cd_size := of_nat (pw' - (fp0 + N) - unat (cd_offset e)),
                       eocd_comment_len := 0\<rparr>)),
                  z_fp = fp0, z_size = pw' + 22 - fp0, z_cerr = cerr st1 \<rparr>"
  have em1: "emit E m fp0 (N + n) 0 e0 N N cds out1 = Some z1"
    by (simp add: emit_def Let_def mv1 cp1 w1 e_def z1_def)
  have l1: "Leanify E m fp0 (N + n) 0 = Some z1"
    using em1 by (simp add: Leanify_accepted[OF sa(3)] rewrite_def sa(2) e0_def[symmetric] r1)
  have lo: "fp0 + N \<le> p_write st1"
    using compact_p_write_mono[of ?s1 E ?c1 cds] cp1 by simp
  have hi: "p_write st1 \<le> pw'"
    using write_cd_headers_pw[OF w1] by simp
  have size: "z_size z1 = N + z_size z2"
    using lo hi by (simp add: z1_def z2)
  have same: "z_buf z1 = z_buf z2"
    by (simp add: z1_def z2)
  have stub: "rdn (z_buf z1) fp0 N = rdn m fp0 N"
  proof (rule rdn_eqI)
    fix i
    assume "i < N"
    then have a: "fp0 + i < p_write st1" "fp0 + i < pw'" "fp0 + i < p_write ?s1"
      using lo hi by simp_all
    have "rd8 (z_buf z1) (fp0 + i) = rd8 M (fp0 + i)"
      using a(2) by (simp add: z1_def rd8_wrn)
    also have "\<dots> = rd8 (buf st1) (fp0 + i)"
      by (rule write_cd_headers_below[OF w1 a(1)])
    also have "\<dots> = rd8 (buf ?s1) (fp0 + i)"
      using compact_below[OF a(3), of E ?c1 cds] cp1 by simp
    finally show "rd8 (z_buf z1) (fp0 + i) = rd8 m (fp0 + i)"
      by simp
  qed
  show ?thesis
    using l1 size same stub by (auto simp: z1_def z2)
qed

theorem C9_stub_prefix_witness:
  "4 + 0 + 103 \<le> length stub_zip \<and> accepted stub_zip (0 + 4) 103
   \<and> search stub_zip 0 (0 + unat (cd_offset (found_eocd stub_zip (0 + 4) 103))) header_magic = 0 + 4
   \<and> 4 + 4 \<le> unat (cd_offset (found_eocd stub_zip (0 + 4) 103))
   \<and> rdn stub_zip (0 + 4 + unat (cd_offset (found_eocd stub_zip (0 + 4) 103))) 4 = cd_magic
   \<and> rdn stub_zip (0 + unat (cd_offset (found_eocd stub_zip (0 + 4) 103))) 4 \<noteq> cd_magic
   \<and> num_records (found_eocd stub_zip (0 + 4) 103) \<noteq> 0
   \<and> 46 \<le> unat (cd_size (found_eocd stub_zip (0 + 4) 103))
   \<and> Leanify toyE stub_zip (0 + 4) 103 0 \<noteq> None
   \<and> (\<exists>z1 z2. Leanify toyE stub_zip (0 + 4) 103 0 = Some z2
         \<and> Leanify toyE stub_zip 0 (4 + 103) 0 = Some z1
         \<and> z_size z1 = 4 + z_size z2 \<and> rdn (z_buf z1) 0 4 = rdn stub_zip 0 4
         \<and> rdn (z_buf z1) (0 + 4) (z_size z2) = rdn (z_buf z2) (z_fp z2) (z_size z2))"
proof -
  have ps: "p_searchstart (0 + 4) 103 = 4"
    by (simp add: p_searchstart_def)
  have h1: "0 + 4 + 103 \<le> length stub_zip"
    by (simp add: stub_zip_def)
  have h2: "accepted stub_zip (0 + 4) 103"
    unfolding accepted_def found_eocd_def found_eocd_at_def ps by code_simp
  have h3: "search stub_zip 0 (0 + unat (cd_offset (found_eocd stub_zip (0 + 4) 103))) header_magic = 0 + 4"
    unfolding found_eocd_def found_eocd_at_def ps by code_simp
  have h4: "4 + 4 \<le> unat (cd_offset (found_eocd stub_zip (0 + 4) 103))"
    unfolding found_eocd_def found_eocd_at_def ps by code_simp
  have h5: "rdn stub_zip (0 + 4 + unat (cd_offset (found_eocd stub_zip (0 + 4) 103))) 4 = cd_magic"
    unfolding found_eocd_def found_eocd_at_def ps by code_simp
  have h6: "rdn stub_zip (0 + unat (cd_offset (found_eocd stub_zip (0 + 4) 103))) 4 \<noteq> cd_magic"
    unfolding found_eocd_def found_eocd_at_def ps by code_simp
  have h7: "num_records (found_eocd stub_zip (0 + 4) 103) \<noteq> 0"
    unfolding found_eocd_def found_eocd_at_def ps by code_simp
  have h8: "46 \<le> unat (cd_size (found_eocd stub_zip (0 + 4) 103))"
    unfolding found_eocd_def found_eocd_at_def ps by code_simp
  have h9: "Leanify toyE stub_zip (0 + 4) 103 0 \<noteq> None"
    unfolding Leanify_def ps by code_simp
  then obtain z2 where r: "Leanify toyE stub_zip (0 + 4) 103 0 = Some z2"
    by auto
  from C9_stub_prefix[OF h1 h2 h3 h4 h5 h6 h7 h8 r] obtain z1 where
    "Leanify toyE stub_zip 0 (4 + 103) 0 = Some z1" "z_size z1 = 4 + z_size z2"
    "rdn (z_buf z1) 0 4 = rdn stub_zip 0 4"
    "rdn (z_buf z1) (0 + 4) (z_size z2) = rdn (z_buf z2) (z_fp z2) (z_size z2)"
    by auto
  with r h1 h2 h3 h4 h5 h6 h7 h8 h9 show ?thesis
    by (simp add: add.commute)
qed

end
